theory Spec2Isabelle
  imports Main "HOL-Library.AList"
begin

section \<open>Python values shared by all components\<close>

text \<open>
  A Python string is the list of its code points; \<open>py\<close> turns a literal of ASCII
  characters into that list, so that \<^verbatim>\<open>"blocks.0"\<close> is \<open>py ''blocks.0''\<close>.
  Concatenation, \<^verbatim>\<open>len\<close>, slicing and equality are those of lists.
\<close>

type_synonym pystr = "nat list"

definition py :: "string \<Rightarrow> pystr" where
  "py s = map of_char s"

text \<open>
  Exceptions of the Python source are values: every \<^verbatim>\<open>raise\<close>, failed
  \<^verbatim>\<open>assert\<close> and failing library call is an \<open>Inl\<close> result. A failed
  assertion carries its message (empty when the source gives none).
\<close>

datatype py_error =
    ValueError
  | KeyError pystr
  | AssertionError pystr
  | TypeError

text \<open>
  A state dict (\<^verbatim>\<open>StateDict = Dict[str, Any]\<close>) is an association list with the
  insertion order of a Python dict; \<^verbatim>\<open>d[k] = v\<close> is \<^const>\<open>AList.update\<close> (an
  existing key keeps its place, a new key goes last), \<^verbatim>\<open>d[k]\<close> and
  \<^verbatim>\<open>d.get(k)\<close> read through \<^const>\<open>map_of\<close>. A stored value is
  \<open>None\<close> (Python's \<^verbatim>\<open>None\<close>) or \<open>Some\<close> of an array.
\<close>

type_synonym 'v state_dict = "(pystr \<times> 'v option) list"

text \<open>\<^verbatim>\<open>apply_prefix(prefix, leaf)\<close>, both arguments optional strings.\<close>

fun apply_prefix :: "pystr option \<Rightarrow> pystr option \<Rightarrow> pystr option" where
  "apply_prefix None leaf = leaf"
| "apply_prefix (Some prefix) None = Some prefix"
| "apply_prefix (Some prefix) (Some leaf) = Some (prefix @ py ''.'' @ leaf)"

text \<open>
  \<^verbatim>\<open>str(i)\<close> for a non-negative integer: its decimal numeral, written with the
  digits \<^verbatim>\<open>0\<close> to \<^verbatim>\<open>9\<close> (code points 48 to 57).
\<close>

definition digit_char :: "nat \<Rightarrow> nat" where
  "digit_char d = 48 + d"

fun str_nat :: "nat \<Rightarrow> pystr" where
  "str_nat n = (if n < 10 then [digit_char n] else str_nat (n div 10) @ [digit_char (n mod 10)])"

declare str_nat.simps [simp del]

section \<open>State-dict codec\<close>

text \<open>
  An array object is either a host array (\<^verbatim>\<open>numpy.ndarray\<close>) or a device array
  (what \<^verbatim>\<open>jnp.array\<close> returns); \<open>'a\<close> is its content (dtype, shape and
  entries). \<^verbatim>\<open>jnp.array(x)\<close> belongs to JAX, not to this code: it raises or
  returns a device array, and what content the device array has is a matter of the JAX
  version and configuration (under the default configuration a 64-bit host array is
  narrowed to 32 bits; \<^verbatim>\<open>None\<close> is a type error in some versions and an array
  in others). The walkers therefore take the content conversion as a parameter
  \<open>convert\<close>, from the argument of \<^verbatim>\<open>jnp.array\<close> to the exception or the
  content of the result.
\<close>

datatype 'a array = NdArray (payload: 'a) | JaxArray (payload: 'a)

definition jnp_array :: "('a array option \<Rightarrow> py_error + 'a) \<Rightarrow> 'a array option \<Rightarrow> py_error + 'a array" where
  "jnp_array convert x = (case convert x of Inl e \<Rightarrow> Inl e | Inr c \<Rightarrow> Inr (JaxArray c))"

text \<open>
  One such conversion, for the examples: \<^verbatim>\<open>jnp.array\<close> under JAX's default
  configuration (\<^verbatim>\<open>jax_enable_x64\<close> off) on arrays of signed integers, an array
  being its bit width and its values. A 64-bit array becomes a 32-bit array with the
  values wrapped around; the other arrays keep width and values.
\<close>

type_synonym int_content = "nat \<times> int list"

definition wrap32 :: "int \<Rightarrow> int" where
  "wrap32 n = (n + 2147483648) mod 4294967296 - 2147483648"

definition jnp_x32 :: "int_content array option \<Rightarrow> py_error + int_content" where
  "jnp_x32 x =
     (case x of
        None \<Rightarrow> Inl TypeError
      | Some a \<Rightarrow>
          (case payload a of
             (bits, vals) \<Rightarrow> if bits = 64 then Inr (32, map wrap32 vals) else Inr (bits, vals)))"

type_synonym axis = "pystr \<times> nat"

text \<open>
  The module tree. A module (\<^verbatim>\<open>eqx.Module\<close> without a serialization override)
  is its dataclass fields in declaration order together with the result of its
  \<^verbatim>\<open>_state_dict_key_map()\<close> (empty when the method is absent); a field is
  either static (\<^verbatim>\<open>field.metadata["static"]\<close>, an opaque value of type
  \<open>'s\<close>) or holds a subtree. A key map sends a field name to an optional key
  (\<^verbatim>\<open>Dict[str, Optional[str]]\<close>). Lists and dicts are the two containers the
  walkers descend into; the leaves are named arrays, \<^verbatim>\<open>None\<close> and everything
  else (plain arrays). The tree is generic in what its leaves hold (\<open>'v\<close>); the
  walkers work on trees of array objects.
\<close>

type_synonym key_map = "(pystr \<times> pystr option) list"

datatype ('v, 's) pytree =
    Module "('v, 's) field list" key_map
  | PyList "('v, 's) pytree list"
  | PyDict "(pystr \<times> ('v, 's) pytree) list"
  | NamedArray 'v "axis list"
  | PyNone
  | Leaf 'v
and ('v, 's) field =
    Field pystr "('v, 's) pytree"
  | Static pystr 's

text \<open>\<^verbatim>\<open>key_map.get(field.name, field.name)\<close>\<close>

definition key_map_get :: "key_map \<Rightarrow> pystr \<Rightarrow> pystr option" where
  "key_map_get km name = (case map_of km name of None \<Rightarrow> Some name | Some key \<Rightarrow> key)"

text \<open>
  \<^verbatim>\<open>update_state_dict_with_jax_tree(tree, state_dict, prefix)\<close> mutates the dict;
  here it returns the new dict, or the exception. The loops over a list (with the
  running index of \<^verbatim>\<open>enumerate\<close>), over the items of a dict and over the fields
  of a module are the three auxiliary functions; the last one,
  \<open>update_fields\<close>, is \<^verbatim>\<open>default_update_state_dict_with_eqx_module\<close> applied
  to a module, given by its fields and its key map.
\<close>

function (sequential) update_state_dict_with_jax_tree ::
    "('a array, 's) pytree \<Rightarrow> 'a array state_dict \<Rightarrow> pystr option \<Rightarrow> py_error + 'a array state_dict"
and update_list ::
    "('a array, 's) pytree list \<Rightarrow> nat \<Rightarrow> 'a array state_dict \<Rightarrow> pystr option \<Rightarrow> py_error + 'a array state_dict"
and update_items ::
    "(pystr \<times> ('a array, 's) pytree) list \<Rightarrow> 'a array state_dict \<Rightarrow> pystr option \<Rightarrow> py_error + 'a array state_dict"
and update_fields ::
    "('a array, 's) field list \<Rightarrow> key_map \<Rightarrow> 'a array state_dict \<Rightarrow> pystr option \<Rightarrow> py_error + 'a array state_dict"
where
  "update_state_dict_with_jax_tree (Module fs km) sd prefix = update_fields fs km sd prefix"
| "update_state_dict_with_jax_tree (PyList xs) sd prefix = update_list xs 0 sd prefix"
| "update_state_dict_with_jax_tree (PyDict kvs) sd prefix = update_items kvs sd prefix"
| "update_state_dict_with_jax_tree (NamedArray arr axes) sd prefix =
     (case prefix of
        None \<Rightarrow> Inl (AssertionError [])
      | Some k \<Rightarrow> Inr (AList.update k (Some arr) sd))"
| "update_state_dict_with_jax_tree PyNone sd prefix =
     (case prefix of
        None \<Rightarrow> Inl ValueError
      | Some k \<Rightarrow> Inr sd)"
| "update_state_dict_with_jax_tree (Leaf x) sd prefix =
     (case prefix of
        None \<Rightarrow> Inl ValueError
      | Some k \<Rightarrow> Inr (AList.update k (Some x) sd))"
| "update_list [] i sd prefix = Inr sd"
| "update_list (item # items) i sd prefix =
     (case update_state_dict_with_jax_tree item sd (apply_prefix prefix (Some (str_nat i))) of
        Inl e \<Rightarrow> Inl e
      | Inr sd' \<Rightarrow> update_list items (Suc i) sd' prefix)"
| "update_items [] sd prefix = Inr sd"
| "update_items ((k, v) # kvs) sd prefix =
     (case update_state_dict_with_jax_tree v sd (apply_prefix prefix (Some k)) of
        Inl e \<Rightarrow> Inl e
      | Inr sd' \<Rightarrow> update_items kvs sd' prefix)"
| "update_fields [] km sd prefix = Inr sd"
| "update_fields (Static name s # fs) km sd prefix = update_fields fs km sd prefix"
| "update_fields (Field name v # fs) km sd prefix =
     (case update_state_dict_with_jax_tree v sd (apply_prefix prefix (key_map_get km name)) of
        Inl e \<Rightarrow> Inl e
      | Inr sd' \<Rightarrow> update_fields fs km sd' prefix)"
  by pat_completeness auto

termination
  by (relation "measure (\<lambda>x. case x of
        Inl (Inl (t, sd, p)) \<Rightarrow> size t
      | Inl (Inr (xs, i, sd, p)) \<Rightarrow> size_list size xs
      | Inr (Inl (kvs, sd, p)) \<Rightarrow> size_list (size_prod (\<lambda>k. 0) size) kvs
      | Inr (Inr (fs, km, sd, p)) \<Rightarrow> size_list size fs)") auto

text \<open>\<^verbatim>\<open>jax_tree_to_state_dict(tree, prefix)\<close>: the update of an empty dict.\<close>

definition jax_tree_to_state_dict ::
    "('a array, 's) pytree \<Rightarrow> pystr option \<Rightarrow> py_error + 'a array state_dict" where
  "jax_tree_to_state_dict tree prefix = update_state_dict_with_jax_tree tree [] prefix"

text \<open>
  \<^verbatim>\<open>jax_tree_from_state_dict(tree, state_dict, prefix)\<close>, with the conversion of
  \<^verbatim>\<open>jnp.array\<close> as first argument. A \<^verbatim>\<open>None\<close> template returns what
  \<^verbatim>\<open>state_dict.get(prefix, None)\<close> returns, as it is: the stored object becomes
  the leaf (\<^verbatim>\<open>None\<close> stays \<^verbatim>\<open>None\<close>).
  \<^verbatim>\<open>default_eqx_module_from_state_dict\<close> (here \<open>from_fields\<close>) rebuilds the
  module from the new values of its non-static fields (\<^verbatim>\<open>eqx.tree_at\<close>), every
  other field kept.
\<close>

fun tree_of_object :: "'a array option \<Rightarrow> ('a array, 's) pytree" where
  "tree_of_object None = PyNone"
| "tree_of_object (Some x) = Leaf x"

function (sequential) jax_tree_from_state_dict ::
    "('a array option \<Rightarrow> py_error + 'a) \<Rightarrow> ('a array, 's) pytree \<Rightarrow> 'a array state_dict \<Rightarrow> pystr option
      \<Rightarrow> py_error + ('a array, 's) pytree"
and from_list ::
    "('a array option \<Rightarrow> py_error + 'a) \<Rightarrow> ('a array, 's) pytree list \<Rightarrow> nat \<Rightarrow> 'a array state_dict \<Rightarrow> pystr option
      \<Rightarrow> py_error + ('a array, 's) pytree list"
and from_items ::
    "('a array option \<Rightarrow> py_error + 'a) \<Rightarrow> (pystr \<times> ('a array, 's) pytree) list \<Rightarrow> 'a array state_dict \<Rightarrow> pystr option
      \<Rightarrow> py_error + (pystr \<times> ('a array, 's) pytree) list"
and from_fields ::
    "('a array option \<Rightarrow> py_error + 'a) \<Rightarrow> ('a array, 's) field list \<Rightarrow> key_map \<Rightarrow> 'a array state_dict \<Rightarrow> pystr option
      \<Rightarrow> py_error + ('a array, 's) field list"
where
  "jax_tree_from_state_dict convert (Module fs km) sd prefix =
     (case from_fields convert fs km sd prefix of
        Inl e \<Rightarrow> Inl e
      | Inr fs' \<Rightarrow> Inr (Module fs' km))"
| "jax_tree_from_state_dict convert (PyList xs) sd prefix =
     (case from_list convert xs 0 sd prefix of
        Inl e \<Rightarrow> Inl e
      | Inr xs' \<Rightarrow> Inr (PyList xs'))"
| "jax_tree_from_state_dict convert (PyDict kvs) sd prefix =
     (case from_items convert kvs sd prefix of
        Inl e \<Rightarrow> Inl e
      | Inr kvs' \<Rightarrow> Inr (PyDict kvs'))"
| "jax_tree_from_state_dict convert (NamedArray arr axes) sd prefix =
     (case prefix of
        None \<Rightarrow> Inl ValueError
      | Some k \<Rightarrow>
          (case map_of sd k of
             None \<Rightarrow> Inl (KeyError k)
           | Some v \<Rightarrow>
               (case jnp_array convert v of
                  Inl e \<Rightarrow> Inl e
                | Inr a \<Rightarrow> Inr (NamedArray a axes))))"
| "jax_tree_from_state_dict convert PyNone sd prefix =
     (case prefix of
        None \<Rightarrow> Inr PyNone
      | Some k \<Rightarrow>
          (case map_of sd k of
             None \<Rightarrow> Inr PyNone
           | Some v \<Rightarrow> Inr (tree_of_object v)))"
| "jax_tree_from_state_dict convert (Leaf x) sd prefix =
     (case prefix of
        None \<Rightarrow> Inl ValueError
      | Some k \<Rightarrow>
          (case map_of sd k of
             None \<Rightarrow> Inl (KeyError k)
           | Some v \<Rightarrow>
               (case jnp_array convert v of
                  Inl e \<Rightarrow> Inl e
                | Inr a \<Rightarrow> Inr (Leaf a))))"
| "from_list convert [] i sd prefix = Inr []"
| "from_list convert (item # items) i sd prefix =
     (case jax_tree_from_state_dict convert item sd (apply_prefix prefix (Some (str_nat i))) of
        Inl e \<Rightarrow> Inl e
      | Inr item' \<Rightarrow>
          (case from_list convert items (Suc i) sd prefix of
             Inl e \<Rightarrow> Inl e
           | Inr items' \<Rightarrow> Inr (item' # items')))"
| "from_items convert [] sd prefix = Inr []"
| "from_items convert ((k, v) # kvs) sd prefix =
     (case jax_tree_from_state_dict convert v sd (apply_prefix prefix (Some k)) of
        Inl e \<Rightarrow> Inl e
      | Inr v' \<Rightarrow>
          (case from_items convert kvs sd prefix of
             Inl e \<Rightarrow> Inl e
           | Inr kvs' \<Rightarrow> Inr ((k, v') # kvs')))"
| "from_fields convert [] km sd prefix = Inr []"
| "from_fields convert (Static name s # fs) km sd prefix =
     (case from_fields convert fs km sd prefix of
        Inl e \<Rightarrow> Inl e
      | Inr fs' \<Rightarrow> Inr (Static name s # fs'))"
| "from_fields convert (Field name v # fs) km sd prefix =
     (case jax_tree_from_state_dict convert v sd (apply_prefix prefix (key_map_get km name)) of
        Inl e \<Rightarrow> Inl e
      | Inr v' \<Rightarrow>
          (case from_fields convert fs km sd prefix of
             Inl e \<Rightarrow> Inl e
           | Inr fs' \<Rightarrow> Inr (Field name v' # fs')))"
  by pat_completeness auto

termination
  by (relation "measure (\<lambda>x. case x of
        Inl (Inl (c, t, sd, p)) \<Rightarrow> size t
      | Inl (Inr (c, xs, i, sd, p)) \<Rightarrow> size_list size xs
      | Inr (Inl (c, kvs, sd, p)) \<Rightarrow> size_list (size_prod (\<lambda>k. 0) size) kvs
      | Inr (Inr (c, fs, km, sd, p)) \<Rightarrow> size_list size fs)") auto

section \<open>Stack and unstack adapter\<close>

text \<open>
  For the two adapters an array is its content: a dtype, a shape and the entries in
  row-major order. The dtype is \<open>Object\<close> for an array of Python objects or a
  numeric dtype, given by its name. An entry is \<open>Some\<close> of a value, or \<open>None\<close>
  for the Python \<^verbatim>\<open>None\<close> held by an array of objects. A well-formed array has
  as many entries as its shape says.
\<close>

datatype dtype = Object | Numeric string

datatype 'a tensor = Tensor (dtype: dtype) (shape: "nat list") (entries: "'a option list")

definition wf_tensor :: "'a tensor \<Rightarrow> bool" where
  "wf_tensor t = (length (entries t) = prod_list (shape t))"

text \<open>
  What the adapters take from the Python runtime and from numpy, and what the source does
  not fix, is a parameter \<open>rt\<close> of the model:
  \<^item> \<open>decimal\<close>: the decimal digits outside ASCII and their values. The pattern
    \<^verbatim>\<open>\d\<close> of a string pattern and \<^verbatim>\<open>int\<close> accept every code point that
    Unicode classes as a decimal digit; which ones there are is a table of the runtime.
  \<^item> \<open>of_object\<close>: the array \<^verbatim>\<open>numpy.asanyarray\<close> makes of a Python object
    other than \<^verbatim>\<open>None\<close> (its dtype is inferred from the object).
  \<^item> \<open>promote\<close>: the conversion of arrays of different numeric dtypes to their
    common dtype, or \<open>None\<close> when numpy finds no dtype it may cast them to.
\<close>

record 'a runtime =
  decimal :: "nat \<Rightarrow> nat option"
  of_object :: "'a \<Rightarrow> 'a tensor"
  promote :: "'a tensor list \<Rightarrow> 'a tensor list option"

text \<open>
  \<^verbatim>\<open>numpy.asanyarray(x)\<close> of a dict value: \<^verbatim>\<open>None\<close> becomes the 0-dimensional
  object array holding \<^verbatim>\<open>None\<close>. The other way round, the item an array yields on
  iteration is a slice; for a 1-dimensional array of objects it is the object itself:
  \<^verbatim>\<open>None\<close> for the entry \<^verbatim>\<open>None\<close>, and any other object is identified with
  the array numpy makes of it.
\<close>

fun np_asanyarray :: "'a tensor option \<Rightarrow> 'a tensor" where
  "np_asanyarray None = Tensor Object [] [None]"
| "np_asanyarray (Some t) = t"

definition as_object :: "'a runtime \<Rightarrow> 'a tensor \<Rightarrow> 'a tensor option" where
  "as_object rt t =
     (if dtype t = Object \<and> shape t = [] then
        (case entries t of
           [None] \<Rightarrow> None
         | [Some x] \<Rightarrow> Some (of_object rt x)
         | _ \<Rightarrow> Some t)
      else Some t)"

text \<open>
  \<^verbatim>\<open>enumerate(v)\<close> over an array: its slices along the leading axis, the
  \<open>i\<close>-th one being the \<open>i\<close>-th block of entries with the remaining shape and the
  same dtype (the item of a 1-dimensional numeric array, a numpy scalar, is identified
  with the 0-dimensional array of the same dtype and value); iterating a 0-dimensional
  array is a type error.
\<close>

definition row :: "'a runtime \<Rightarrow> 'a tensor \<Rightarrow> nat \<Rightarrow> 'a tensor option" where
  "row rt t i =
     (let s = tl (shape t)
      in as_object rt (Tensor (dtype t) s (take (prod_list s) (drop (i * prod_list s) (entries t)))))"

definition iter_rows :: "'a runtime \<Rightarrow> 'a tensor \<Rightarrow> py_error + 'a tensor option list" where
  "iter_rows rt t =
     (case shape t of
        [] \<Rightarrow> Inl TypeError
      | n # s \<Rightarrow> Inr (map (row rt t) [0..<n]))"

text \<open>
  \<^verbatim>\<open>numpy.stack(tensors, axis=0)\<close>: every item goes through
  \<^verbatim>\<open>asanyarray\<close>; an empty list and items of different shapes are value errors.
  The result has the new leading axis. When the items have one dtype it has that dtype
  and the items' entries one after the other; when they differ and one is an array of
  objects, it is an array of objects with the same entries; otherwise the items are
  first converted to their common dtype, which can change the entries.
\<close>

definition np_stack :: "'a runtime \<Rightarrow> 'a tensor option list \<Rightarrow> py_error + 'a tensor" where
  "np_stack rt tensors =
     (let arrays = map np_asanyarray tensors in
      if arrays = [] then Inl ValueError
      else if \<not> list_all (\<lambda>a. shape a = shape (hd arrays)) arrays then Inl ValueError
      else if list_all (\<lambda>a. dtype a = dtype (hd arrays)) arrays then
        Inr (Tensor (dtype (hd arrays)) (length arrays # shape (hd arrays)) (concat (map entries arrays)))
      else if list_ex (\<lambda>a. dtype a = Object) arrays then
        Inr (Tensor Object (length arrays # shape (hd arrays)) (concat (map entries arrays)))
      else
        (case promote rt arrays of
           None \<Rightarrow> Inl TypeError
         | Some converted \<Rightarrow>
             Inr (Tensor (dtype (hd converted)) (length arrays # shape (hd arrays))
                    (concat (map entries converted)))))"

text \<open>
  \<^verbatim>\<open>unstack_state_dict(state_dict, prefix)\<close>. The inner loop writes the rows under
  \<^verbatim>\<open>f"{prefix}{i}.{k[len(prefix):]}"\<close>; the outer loop goes through the items.
\<close>

definition startswith :: "pystr \<Rightarrow> pystr \<Rightarrow> bool" where
  "startswith k prefix = (take (length prefix) k = prefix)"

fun unstack_rows ::
    "pystr \<Rightarrow> pystr \<Rightarrow> 'a tensor option list \<Rightarrow> nat \<Rightarrow> 'a tensor state_dict \<Rightarrow> 'a tensor state_dict" where
  "unstack_rows prefix rest [] i new_dict = new_dict"
| "unstack_rows prefix rest (v_i # vs) i new_dict =
     unstack_rows prefix rest vs (Suc i) (AList.update (prefix @ str_nat i @ py ''.'' @ rest) v_i new_dict)"

fun unstack_loop ::
    "'a runtime \<Rightarrow> 'a tensor state_dict \<Rightarrow> pystr \<Rightarrow> 'a tensor state_dict \<Rightarrow> py_error + 'a tensor state_dict" where
  "unstack_loop rt [] prefix new_dict = Inr new_dict"
| "unstack_loop rt ((k, v) # items) prefix new_dict =
     (case v of
        Some t \<Rightarrow>
          (if startswith k prefix then
             (case iter_rows rt t of
                Inl e \<Rightarrow> Inl e
              | Inr rows \<Rightarrow>
                  unstack_loop rt items prefix (unstack_rows prefix (drop (length prefix) k) rows 0 new_dict))
           else unstack_loop rt items prefix (AList.update k v new_dict))
      | None \<Rightarrow> unstack_loop rt items prefix (AList.update k v new_dict))"

definition unstack_state_dict ::
    "'a runtime \<Rightarrow> 'a tensor state_dict \<Rightarrow> pystr option \<Rightarrow> py_error + 'a tensor state_dict" where
  "unstack_state_dict rt state_dict prefix =
     (case apply_prefix prefix (Some []) of
        None \<Rightarrow> Inl (AssertionError [])
      | Some prefix' \<Rightarrow> unstack_loop rt state_dict prefix' [])"

text \<open>
  The pattern of \<^verbatim>\<open>stack_state_dict\<close> is
  \<^verbatim>\<open>re.compile(rf"{escaped}\.(\d+)\.(.*)")\<close> with
  \<^verbatim>\<open>escaped = re.escape(prefix or "")\<close> (which matches the prefix literally,
  and the empty string for \<^verbatim>\<open>None\<close>), applied with \<^verbatim>\<open>pattern.match(k)\<close>: the
  key starts with the literal prefix and a dot; group 1 is the longest run of digits
  that follows, which must be non-empty and followed by a dot (a shorter run is
  followed by a digit, so backtracking finds nothing else); group 2 runs to the first
  line break, or to the end of the key (\<^verbatim>\<open>.\<close> matches no line break, and
  \<^verbatim>\<open>match\<close> does not ask for the end of the string). A digit is a decimal digit
  of Unicode: below code point 128 these are \<^verbatim>\<open>0\<close> to \<^verbatim>\<open>9\<close>, above it
  the table of the runtime decides. The result is
  \<^verbatim>\<open>(match.group(1), match.group(2))\<close>; \<^verbatim>\<open>int\<close> of a run of digits is its
  decimal value, every digit counting with its own value.
\<close>

definition digit_value :: "'a runtime \<Rightarrow> nat \<Rightarrow> nat option" where
  "digit_value rt c =
     (if c < 128 then (if 48 \<le> c \<and> c \<le> 57 then Some (c - 48) else None) else decimal rt c)"

definition is_digit :: "'a runtime \<Rightarrow> nat \<Rightarrow> bool" where
  "is_digit rt c = (digit_value rt c \<noteq> None)"

definition int_of_digits :: "'a runtime \<Rightarrow> pystr \<Rightarrow> nat" where
  "int_of_digits rt ds =
     foldl (\<lambda>n c. 10 * n + (case digit_value rt c of None \<Rightarrow> 0 | Some d \<Rightarrow> d)) 0 ds"

definition newline :: nat where
  "newline = 10"

definition escaped :: "pystr option \<Rightarrow> pystr" where
  "escaped prefix = (case prefix of None \<Rightarrow> [] | Some p \<Rightarrow> p)"

definition pattern_match :: "'a runtime \<Rightarrow> pystr option \<Rightarrow> pystr \<Rightarrow> (pystr \<times> pystr) option" where
  "pattern_match rt prefix k =
     (let lit = escaped prefix @ py ''.''
      in if startswith k lit then
           (let r = drop (length lit) k;
                ds = takeWhile (is_digit rt) r;
                r' = dropWhile (is_digit rt) r
            in if ds \<noteq> [] \<and> take 1 r' = py ''.''
               then Some (ds, takeWhile (\<lambda>c. c \<noteq> newline) (drop 1 r'))
               else None)
         else None)"

text \<open>
  The first loop of \<^verbatim>\<open>stack_state_dict\<close>, over the items, with the two dicts it
  fills: \<^verbatim>\<open>vectorized_dict\<close> and \<^verbatim>\<open>tensors_to_vectorize\<close>. The list under a
  block key is padded with \<^verbatim>\<open>None\<close> up to the block index; a slot that is not
  \<^verbatim>\<open>None\<close> fails the assertion.
\<close>

fun stack_loop ::
    "'a runtime \<Rightarrow> 'a tensor state_dict \<Rightarrow> pystr option \<Rightarrow> 'a tensor state_dict \<Rightarrow> (pystr \<times> 'a tensor option list) list
      \<Rightarrow> py_error + ('a tensor state_dict \<times> (pystr \<times> 'a tensor option list) list)" where
  "stack_loop rt [] prefix vectorized_dict tensors_to_vectorize = Inr (vectorized_dict, tensors_to_vectorize)"
| "stack_loop rt ((k, v) # items) prefix vectorized_dict tensors_to_vectorize =
     (case pattern_match rt prefix k of
        Some (group1, block_key) \<Rightarrow>
          (let block_idx = int_of_digits rt group1;
               tensors = (case map_of tensors_to_vectorize block_key of None \<Rightarrow> [] | Some ts \<Rightarrow> ts);
               tensors' = (if length tensors \<le> block_idx
                           then tensors @ replicate (block_idx - length tensors + 1) None
                           else tensors)
           in if tensors' ! block_idx \<noteq> None then Inl (AssertionError (py ''Duplicate key '' @ k))
              else stack_loop rt items prefix vectorized_dict
                     (AList.update block_key (tensors'[block_idx := v]) tensors_to_vectorize))
      | None \<Rightarrow> stack_loop rt items prefix (AList.update k v vectorized_dict) tensors_to_vectorize)"

text \<open>The second loop: every collected list is stacked and stored under the prefixed block key.\<close>

fun vectorize_loop ::
    "'a runtime \<Rightarrow> (pystr \<times> 'a tensor option list) list \<Rightarrow> pystr option \<Rightarrow> 'a tensor state_dict
      \<Rightarrow> py_error + 'a tensor state_dict" where
  "vectorize_loop rt [] prefix vectorized_dict = Inr vectorized_dict"
| "vectorize_loop rt ((k, tensors) # groups) prefix vectorized_dict =
     (case np_stack rt tensors of
        Inl e \<Rightarrow> Inl e
      | Inr stacked \<Rightarrow>
          (case apply_prefix prefix (Some k) of
             None \<Rightarrow> Inl TypeError
           | Some key \<Rightarrow> vectorize_loop rt groups prefix (AList.update key (Some stacked) vectorized_dict)))"

definition stack_state_dict ::
    "'a runtime \<Rightarrow> 'a tensor state_dict \<Rightarrow> pystr option \<Rightarrow> py_error + 'a tensor state_dict" where
  "stack_state_dict rt state_dict prefix =
     (case stack_loop rt state_dict prefix [] [] of
        Inl e \<Rightarrow> Inl e
      | Inr (vectorized_dict, tensors_to_vectorize) \<Rightarrow>
          vectorize_loop rt tensors_to_vectorize prefix vectorized_dict)"

text \<open>
  One runtime, for the examples. Its digits outside ASCII are the Arabic-Indic digits
  (code points 1632 to 1641, in Unicode from its first version). A Python integer becomes
  an \<^verbatim>\<open>int64\<close> array. Of numpy's promotion it has the one case the examples
  use: \<^verbatim>\<open>uint64\<close> with \<^verbatim>\<open>int64\<close> gives \<^verbatim>\<open>float64\<close>, every entry
  rounded to the nearest number with 53 significant bits (ties to the even one); the
  entries are integers, and so are the rounded ones.
\<close>

fun bit_length :: "nat \<Rightarrow> nat" where
  "bit_length n = (if n = 0 then 0 else Suc (bit_length (n div 2)))"

declare bit_length.simps [simp del]

definition round_float64 :: "int \<Rightarrow> int" where
  "round_float64 n =
     (let m = nat \<bar>n\<bar>;
          e = bit_length m - 53;
          q = m div 2 ^ e;
          r = m mod 2 ^ e;
          up = (2 ^ e < 2 * r \<or> (2 * r = 2 ^ e \<and> odd q))
      in sgn n * int ((if up then q + 1 else q) * 2 ^ e))"

definition to_float64 :: "int tensor \<Rightarrow> int tensor" where
  "to_float64 t = Tensor (Numeric ''float64'') (shape t) (map (map_option round_float64) (entries t))"

definition example_runtime :: "int runtime" where
  "example_runtime =
     \<lparr> decimal = (\<lambda>c. if 1632 \<le> c \<and> c \<le> 1641 then Some (c - 1632) else None),
       of_object = (\<lambda>x. Tensor (Numeric ''int64'') [] [Some x]),
       promote = (\<lambda>ts. if list_all (\<lambda>t. dtype t = Numeric ''uint64'' \<or> dtype t = Numeric ''int64'') ts
                        then Some (map to_float64 ts) else None) \<rparr>"

section \<open>Notions used in the statements\<close>

text \<open>
  A numeral is canonical when it is written with the digits \<^verbatim>\<open>0\<close> to
  \<^verbatim>\<open>9\<close> and is \<^verbatim>\<open>0\<close> or does not start with \<^verbatim>\<open>0\<close>. The keys of a
  dict are canonical for a prefix when group 1 of every key the pattern matches is; they
  are single-line when no key holds a line break.
\<close>

definition ascii_digit :: "nat \<Rightarrow> bool" where
  "ascii_digit c = (48 \<le> c \<and> c \<le> 57)"

definition no_leading_zero :: "pystr \<Rightarrow> bool" where
  "no_leading_zero ds = (ds = py ''0'' \<or> take 1 ds \<noteq> py ''0'')"

definition canonical_numeral :: "pystr \<Rightarrow> bool" where
  "canonical_numeral ds = (list_all ascii_digit ds \<and> no_leading_zero ds)"

definition canonical_keys :: "'a runtime \<Rightarrow> pystr option \<Rightarrow> 'v state_dict \<Rightarrow> bool" where
  "canonical_keys rt prefix sd =
     list_all (\<lambda>(k, v). case pattern_match rt prefix k of
                            None \<Rightarrow> True
                          | Some (group1, block_key) \<Rightarrow> canonical_numeral group1) sd"

definition single_line_keys :: "'v state_dict \<Rightarrow> bool" where
  "single_line_keys sd = list_all (\<lambda>(k, v). newline \<notin> set k) sd"

text \<open>
  The state of \<^verbatim>\<open>tensors_to_vectorize\<close> read slot by slot: what the list under
  a block key holds at an index (\<open>None\<close> past its end or when the key is absent),
  and the step of the first loop that writes one slot.
\<close>

definition slot :: "(pystr \<times> 'a tensor option list) list \<Rightarrow> pystr \<Rightarrow> nat \<Rightarrow> 'a tensor option" where
  "slot ttv bk i = (case map_of ttv bk of None \<Rightarrow> None | Some ts \<Rightarrow> if i < length ts then ts ! i else None)"

definition put_slot ::
  "pystr \<Rightarrow> nat \<Rightarrow> 'a tensor option \<Rightarrow> (pystr \<times> 'a tensor option list) list \<Rightarrow> (pystr \<times> 'a tensor option list) list" where
  "put_slot bk i v ttv =
     (let tensors = (case map_of ttv bk of None \<Rightarrow> [] | Some ts \<Rightarrow> ts);
          tensors' = (if length tensors \<le> i then tensors @ replicate (i - length tensors + 1) None else tensors)
      in AList.update bk (tensors'[i := v]) ttv)"

text \<open>
  A key hits the slot \<open>i\<close> of the block key \<open>bk\<close> when the pattern matches it with
  that block key and a numeral of value \<open>i\<close>; an index is missing from a dict when
  no key hits its slot.
\<close>

definition hits :: "'a runtime \<Rightarrow> pystr option \<Rightarrow> pystr \<Rightarrow> pystr \<Rightarrow> nat \<Rightarrow> bool" where
  "hits rt prefix k bk i =
     (case pattern_match rt prefix k of None \<Rightarrow> False | Some (g1, g2) \<Rightarrow> g2 = bk \<and> int_of_digits rt g1 = i)"

definition index_missing :: "'a runtime \<Rightarrow> pystr option \<Rightarrow> 'v state_dict \<Rightarrow> pystr \<Rightarrow> nat \<Rightarrow> bool" where
  "index_missing rt prefix sd bk i = list_all (\<lambda>(k, v). \<not> hits rt prefix k bk i) sd"

text \<open>
  The keys of a dict are exact for a prefix when every key the pattern matches is the
  prefix, a dot, the canonical numeral of its index, a dot and its block key, with
  nothing after.
\<close>

definition exact_keys :: "'a runtime \<Rightarrow> pystr option \<Rightarrow> 'v state_dict \<Rightarrow> bool" where
  "exact_keys rt prefix sd =
     (\<forall>(k, v) \<in> set sd. \<forall>g1 g2. pattern_match rt prefix k = Some (g1, g2) \<longrightarrow>
        k = escaped prefix @ py ''.'' @ str_nat (int_of_digits rt g1) @ py ''.'' @ g2)"

text \<open>
  The leading size of an array (\<^verbatim>\<open>len(v)\<close>, 0 for a 0-dimensional one here); an array
  is numeric when it has a numeric dtype and none of its entries is the object
  \<^verbatim>\<open>None\<close>.
\<close>

definition leading :: "'a tensor \<Rightarrow> nat" where
  "leading t = (case shape t of [] \<Rightarrow> 0 | n # s \<Rightarrow> n)"

definition numeric :: "'a tensor \<Rightarrow> bool" where
  "numeric t = (dtype t \<noteq> Object \<and> None \<notin> set (entries t))"

text \<open>
  The dicts the round trips are stated for, with a prefix \<open>p\<close>. A stacked dict is in
  order when its keys are pairwise distinct and every key that starts with \<open>p\<close> and a
  dot has no line break after it and holds a well-formed numeric array of leading size
  at least 1. An unstacked dict is in order when its keys are pairwise distinct and
  every key that starts with \<open>p\<close> and a dot is matched by the pattern, with a
  canonical index and no line break after the prefix, holds a well-formed numeric
  array, and every smaller index is present under the same block key with an array of
  the same shape and the same dtype (the index run is dense and the arrays can be
  stacked as they are).
\<close>

definition stacked_ok :: "pystr \<Rightarrow> 'a tensor state_dict \<Rightarrow> bool" where
  "stacked_ok p sd =
     (distinct (map fst sd) \<and>
      list_all (\<lambda>(k, v). \<not> startswith k (p @ py ''.'') \<or>
          (newline \<notin> set (drop (length (p @ py ''.'')) k) \<and>
           (case v of None \<Rightarrow> False | Some t \<Rightarrow> wf_tensor t \<and> numeric t \<and> 0 < leading t))) sd)"

definition unstacked_ok :: "'a runtime \<Rightarrow> pystr \<Rightarrow> 'a tensor state_dict \<Rightarrow> bool" where
  "unstacked_ok rt p sd =
     (distinct (map fst sd) \<and>
      list_all (\<lambda>(k, v). \<not> startswith k (p @ py ''.'') \<or>
         (case pattern_match rt (Some p) k of
            None \<Rightarrow> False
          | Some (g1, bk) \<Rightarrow>
              canonical_numeral g1 \<and> newline \<notin> set (drop (length (p @ py ''.'')) k) \<and>
              (case v of
                 None \<Rightarrow> False
               | Some t \<Rightarrow>
                   wf_tensor t \<and> numeric t \<and>
                   list_all (\<lambda>j. case map_of sd ((p @ py ''.'') @ str_nat j @ py ''.'' @ bk) of
                                    Some (Some t') \<Rightarrow> shape t' = shape t \<and> dtype t' = dtype t
                                  | _ \<Rightarrow> False) [0..<int_of_digits rt g1]))) sd)"

text \<open>
  For the proofs about the outer loop of unstack: every key under the prefix holds an
  array that can be iterated, and the keys the loop generates from a dict.
\<close>

definition rows_ok :: "pystr \<Rightarrow> 'a tensor state_dict \<Rightarrow> bool" where
  "rows_ok p L = (\<forall>(k, v) \<in> set L. startswith k p \<longrightarrow> (\<exists>t. v = Some t \<and> shape t \<noteq> []))"

definition generated :: "pystr \<Rightarrow> 'a tensor state_dict \<Rightarrow> pystr \<Rightarrow> bool" where
  "generated p L k' =
     (\<exists>rest t i. k' = p @ str_nat i @ py ''.'' @ rest \<and> map_of L (p @ rest) = Some (Some t) \<and> i < leading t)"

text \<open>
  The leaves of a tree in the order the walkers reach them, each with the prefix the
  walkers address it with: a named array and a plain array with their array,
  \<^verbatim>\<open>None\<close> with \<open>None\<close>. The prefixes are computed as the walkers compute
  them: the index of a list item, the key of a dict item, the key-map entry of a
  field (its name when the map has none), joined by \<^verbatim>\<open>apply_prefix\<close>.
\<close>

function (sequential) tree_leaves :: "('v, 's) pytree \<Rightarrow> pystr option \<Rightarrow> (pystr option \<times> 'v option) list"
and list_leaves :: "('v, 's) pytree list \<Rightarrow> nat \<Rightarrow> pystr option \<Rightarrow> (pystr option \<times> 'v option) list"
and items_leaves :: "(pystr \<times> ('v, 's) pytree) list \<Rightarrow> pystr option \<Rightarrow> (pystr option \<times> 'v option) list"
and fields_leaves :: "('v, 's) field list \<Rightarrow> key_map \<Rightarrow> pystr option \<Rightarrow> (pystr option \<times> 'v option) list"
where
  "tree_leaves (Module fs km) prefix = fields_leaves fs km prefix"
| "tree_leaves (PyList xs) prefix = list_leaves xs 0 prefix"
| "tree_leaves (PyDict kvs) prefix = items_leaves kvs prefix"
| "tree_leaves (NamedArray arr axes) prefix = [(prefix, Some arr)]"
| "tree_leaves PyNone prefix = [(prefix, None)]"
| "tree_leaves (Leaf x) prefix = [(prefix, Some x)]"
| "list_leaves [] i prefix = []"
| "list_leaves (item # items) i prefix =
     tree_leaves item (apply_prefix prefix (Some (str_nat i))) @ list_leaves items (Suc i) prefix"
| "items_leaves [] prefix = []"
| "items_leaves ((k, v) # kvs) prefix =
     tree_leaves v (apply_prefix prefix (Some k)) @ items_leaves kvs prefix"
| "fields_leaves [] km prefix = []"
| "fields_leaves (Static name s # fs) km prefix = fields_leaves fs km prefix"
| "fields_leaves (Field name v # fs) km prefix =
     tree_leaves v (apply_prefix prefix (key_map_get km name)) @ fields_leaves fs km prefix"
  by pat_completeness auto

termination
  by (relation "measure (\<lambda>x. case x of
        Inl (Inl (t, p)) \<Rightarrow> size t
      | Inl (Inr (xs, i, p)) \<Rightarrow> size_list size xs
      | Inr (Inl (kvs, p)) \<Rightarrow> size_list (size_prod (\<lambda>k. 0) size) kvs
      | Inr (Inr (fs, km, p)) \<Rightarrow> size_list size fs)") auto

text \<open>
  A tree is addressable from a prefix when every leaf is an array, is addressed with a
  prefix that is not \<^verbatim>\<open>None\<close>, and no two leaves are addressed with the same
  prefix (no two paths join to the same dotted key).
\<close>

definition addressable :: "('v, 's) pytree \<Rightarrow> pystr option \<Rightarrow> bool" where
  "addressable tree prefix =
     (list_all (\<lambda>(k, v). k \<noteq> None \<and> v \<noteq> None) (tree_leaves tree prefix)
      \<and> distinct (map fst (tree_leaves tree prefix)))"

text \<open>
  The arrays among the leaves are kept by a conversion when \<^verbatim>\<open>jnp.array\<close>
  returns each of them with its content unchanged.
\<close>

definition kept :: "('a array option \<Rightarrow> py_error + 'a) \<Rightarrow> (pystr option \<times> 'a array option) list \<Rightarrow> bool" where
  "kept convert leaves =
     list_all (\<lambda>(k, v). case v of None \<Rightarrow> True | Some x \<Rightarrow> convert (Some x) = Inr (payload x)) leaves"

text \<open>
  The device array with the content of an array object, and a tree with every leaf
  moved to the device. Two trees are numerically equal leaf by leaf when they are equal
  once the array objects are replaced by their content. The skeleton of a tree forgets
  the arrays of the leaves and keeps everything else (containers, dict keys, field
  names, key maps, static values, axes); two trees have the same shape when they have
  the same skeleton.
\<close>

definition device :: "'a array \<Rightarrow> 'a array" where
  "device x = JaxArray (payload x)"

definition on_device :: "('a array, 's) pytree \<Rightarrow> ('a array, 's) pytree" where
  "on_device = map_pytree device (\<lambda>s. s)"

definition on_device_field :: "('a array, 's) field \<Rightarrow> ('a array, 's) field" where
  "on_device_field = map_field device (\<lambda>s. s)"

definition numerically_equal :: "('a array, 's) pytree \<Rightarrow> ('a array, 's) pytree \<Rightarrow> bool" where
  "numerically_equal t1 t2 = (map_pytree payload (\<lambda>s. s) t1 = map_pytree payload (\<lambda>s. s) t2)"

definition skeleton :: "('v, 's) pytree \<Rightarrow> (unit, 's) pytree" where
  "skeleton = map_pytree (\<lambda>x. ()) (\<lambda>s. s)"

definition skeleton_field :: "('v, 's) field \<Rightarrow> (unit, 's) field" where
  "skeleton_field = map_field (\<lambda>x. ()) (\<lambda>s. s)"

definition same_shape :: "('v, 's) pytree \<Rightarrow> ('w, 's) pytree \<Rightarrow> bool" where
  "same_shape t1 t2 = (skeleton t1 = skeleton t2)"

text \<open>
  A list of leaves is stored in a dict when every leaf is an array addressed with a
  prefix that is not \<^verbatim>\<open>None\<close>, and the dict holds that array under that key.
\<close>

definition stored :: "(pystr option \<times> 'v option) list \<Rightarrow> 'v state_dict \<Rightarrow> bool" where
  "stored leaves sd =
     list_all (\<lambda>(ko, vo). case ko of None \<Rightarrow> False
                 | Some k \<Rightarrow> (case vo of None \<Rightarrow> False | Some x \<Rightarrow> map_of sd k = Some (Some x))) leaves"

definition has_key :: "pystr option \<times> 'v option \<Rightarrow> bool" where
  "has_key kv = (fst kv \<noteq> None)"

text \<open>The writes of the update walker, leaf after leaf.\<close>

fun write_leaves :: "(pystr option \<times> 'v option) list \<Rightarrow> 'v state_dict \<Rightarrow> 'v state_dict" where
  "write_leaves [] sd = sd"
| "write_leaves ((Some k, Some x) # leaves) sd = write_leaves leaves (AList.update k (Some x) sd)"
| "write_leaves (leaf # leaves) sd = write_leaves leaves sd"





section \<open>Properties of the state-dict codec\<close>

lemma py_Nil [simp]: "py [] = []"
  by (simp add: py_def)

lemma length_py [simp]: "length (py s) = length s"
  by (simp add: py_def)

subsection \<open>Leaves addressed with a null prefix\<close>

text \<open>
  Claim C9. A named array or a plain array addressed with the prefix \<^verbatim>\<open>None\<close> is
  an error in both directions, whatever the state dict holds and whatever
  \<^verbatim>\<open>jnp.array\<close> does: the update (and so \<^verbatim>\<open>jax_tree_to_state_dict\<close>) fails
  with the failed assertion for a named array and with \<^verbatim>\<open>ValueError\<close> for a
  plain array, and \<^verbatim>\<open>jax_tree_from_state_dict\<close> fails with
  \<^verbatim>\<open>ValueError\<close> for both. No key is written or read.
\<close>

theorem null_prefix_leaf_error:
  "update_state_dict_with_jax_tree (NamedArray arr axes) sd None = Inl (AssertionError [])
   \<and> update_state_dict_with_jax_tree (Leaf x) sd None = Inl ValueError
   \<and> jax_tree_to_state_dict (NamedArray arr axes) None = Inl (AssertionError [])
   \<and> jax_tree_to_state_dict (Leaf x) None = Inl ValueError
   \<and> jax_tree_from_state_dict convert (NamedArray arr axes) sd None = Inl ValueError
   \<and> jax_tree_from_state_dict convert (Leaf x) sd None = Inl ValueError"
  by (simp add: jax_tree_to_state_dict_def)

subsection \<open>Missing keys\<close>

text \<open>
  Claim C6, as the source has it. For a named-array or plain-array template whose key
  is absent from the state dict, \<^verbatim>\<open>jax_tree_from_state_dict\<close> raises the lookup
  error for that key. For a \<^verbatim>\<open>None\<close> template an absent key gives
  \<^verbatim>\<open>None\<close>, and a present key gives the stored object itself
  (\<^verbatim>\<open>state_dict.get(prefix, None)\<close>), with no \<^verbatim>\<open>jnp.array\<close> applied to it.
  This holds whatever \<^verbatim>\<open>jnp.array\<close> does.
\<close>

theorem from_state_dict_missing_key:
  "(map_of sd k = None \<longrightarrow>
      jax_tree_from_state_dict convert (NamedArray arr axes) sd (Some k) = Inl (KeyError k)
      \<and> jax_tree_from_state_dict convert (Leaf x) sd (Some k) = Inl (KeyError k)
      \<and> jax_tree_from_state_dict convert PyNone sd (Some k) = Inr PyNone)
   \<and> (map_of sd k = Some v \<longrightarrow>
      jax_tree_from_state_dict convert PyNone sd (Some k) = Inr (tree_of_object v))"
  by simp

theorem from_state_dict_missing_key_witness:
  "map_of [(py ''bias'', Some (NdArray (32, [5])))] (py ''weight'') = None
   \<and> jax_tree_from_state_dict jnp_x32
         (NamedArray (JaxArray (32, [1])) [(py ''embed'', 1)] :: (int_content array, unit) pytree)
         [(py ''bias'', Some (NdArray (32, [5])))] (Some (py ''weight'')) = Inl (KeyError (py ''weight''))
   \<and> jax_tree_from_state_dict jnp_x32 (Leaf (JaxArray (32, [1])) :: (int_content array, unit) pytree)
         [(py ''bias'', Some (NdArray (32, [5])))] (Some (py ''weight'')) = Inl (KeyError (py ''weight''))
   \<and> jax_tree_from_state_dict jnp_x32 (PyNone :: (int_content array, unit) pytree)
         [(py ''bias'', Some (NdArray (32, [5])))] (Some (py ''weight'')) = Inr PyNone
   \<and> map_of [(py ''bias'', Some (NdArray (32, [5::int])))] (py ''bias'') = Some (Some (NdArray (32::nat, [5])))
   \<and> jax_tree_from_state_dict jnp_x32 (PyNone :: (int_content array, unit) pytree)
         [(py ''bias'', Some (NdArray (32, [5])))] (Some (py ''bias'')) = Inr (Leaf (NdArray (32, [5])))"
  using from_state_dict_missing_key
          [where sd = "[(py ''bias'', Some (NdArray (32, [5])))]" and k = "py ''weight''"
             and convert = jnp_x32 and arr = "JaxArray (32, [1])" and axes = "[(py ''embed'', 1)]"
             and x = "JaxArray (32, [1])" and v = "Some (NdArray (32, [5]))" and 'c = unit]
        from_state_dict_missing_key
          [where sd = "[(py ''bias'', Some (NdArray (32, [5])))]" and k = "py ''bias''"
             and convert = jnp_x32 and arr = "JaxArray (32, [1])" and axes = "[(py ''embed'', 1)]"
             and x = "JaxArray (32, [1])" and v = "Some (NdArray (32, [5]))" and 'c = unit]
  by (simp add: py_def)

text \<open>
  The claim as worded has the present value coerced to a tensor. A host array stored
  under the key comes back as that host array, whatever \<^verbatim>\<open>jnp.array\<close> does, and
  that is never what \<^verbatim>\<open>jnp.array\<close> returns for it (under the default
  configuration, the device array with the same content).
\<close>

theorem none_template_present_key_counterexample:
  "(\<forall>convert. jax_tree_from_state_dict convert (PyNone :: (int_content array, unit) pytree)
         [(py ''bias'', Some (NdArray (32, [5])))] (Some (py ''bias'')) = Inr (Leaf (NdArray (32, [5]))))
   \<and> (\<forall>convert. jnp_array convert (Some (NdArray (32, [5]) :: int_content array)) \<noteq> Inr (NdArray (32, [5])))
   \<and> jnp_array jnp_x32 (Some (NdArray (32, [5]))) = Inr (JaxArray (32, [5]))"
  by (simp add: jnp_array_def jnp_x32_def split: sum.splits)

subsection \<open>Leaves written and read\<close>

lemma write_leaves_append: "write_leaves (A @ B) sd = write_leaves B (write_leaves A sd)"
  by (induction A sd rule: write_leaves.induct) simp_all

lemma update_writes:
  fixes T :: "('a array, 's) pytree" and xs :: "('a array, 's) pytree list"
    and kvs :: "(pystr \<times> ('a array, 's) pytree) list" and fs :: "('a array, 's) field list"
  shows "list_all has_key (tree_leaves T p) \<Longrightarrow>
     update_state_dict_with_jax_tree T sd p = Inr (write_leaves (tree_leaves T p) sd)"
  and "list_all has_key (list_leaves xs i p) \<Longrightarrow>
     update_list xs i sd p = Inr (write_leaves (list_leaves xs i p) sd)"
  and "list_all has_key (items_leaves kvs p) \<Longrightarrow>
     update_items kvs sd p = Inr (write_leaves (items_leaves kvs p) sd)"
  and "list_all has_key (fields_leaves fs km p) \<Longrightarrow>
     update_fields fs km sd p = Inr (write_leaves (fields_leaves fs km p) sd)"
proof (induction T sd p and xs i sd p and kvs sd p and fs km sd p
       rule: update_state_dict_with_jax_tree_update_list_update_items_update_fields.induct)
  case (4 arr axes sd prefix)
  then show ?case by (cases prefix) (simp_all add: has_key_def)
next
  case (5 sd prefix)
  then show ?case by (cases prefix) (simp_all add: has_key_def)
next
  case (6 x sd prefix)
  then show ?case by (cases prefix) (simp_all add: has_key_def)
qed (simp_all add: write_leaves_append)

lemma stored_append: "stored (A @ B) sd \<longleftrightarrow> stored A sd \<and> stored B sd"
  by (simp add: stored_def)

lemma stored_single: "stored [(ko, vo)] sd \<longleftrightarrow> (\<exists>k x. ko = Some k \<and> vo = Some x \<and> map_of sd k = Some (Some x))"
  by (auto simp: stored_def split: option.splits)

lemma write_leaves_other:
  "Some k \<notin> fst ` set L \<Longrightarrow> map_of (write_leaves L sd) k = map_of sd k"
  by (induction L sd rule: write_leaves.induct) (auto simp: update_conv')

lemma write_leaves_lookup:
  assumes "distinct (map fst L)" and "(Some k, Some x) \<in> set L"
  shows "map_of (write_leaves L sd) k = Some (Some x)"
  using assms
proof (induction L sd rule: write_leaves.induct)
  case (1 sd)
  then show ?case by simp
next
  case (2 k0 x0 leaves sd)
  show ?case
  proof (cases "(Some k, Some x) \<in> set leaves")
    case True
    with 2 show ?thesis by simp
  next
    case False
    with 2 have e: "k0 = k" "x0 = x" and "Some k \<notin> fst ` set leaves" by auto
    then show ?thesis by (simp add: write_leaves_other update_conv')
  qed
qed auto

lemma write_leaves_stored:
  assumes "distinct (map fst L)" and "list_all (\<lambda>(k, v). k \<noteq> None \<and> v \<noteq> None) L"
  shows "stored L (write_leaves L sd)"
  unfolding stored_def list_all_iff
proof (intro ballI, clarify)
  fix ko vo assume m: "(ko, vo) \<in> set L"
  with assms(2) obtain k x where "ko = Some k" "vo = Some x" by (auto simp: list_all_iff)
  with write_leaves_lookup [OF assms(1), of k x sd] m
  show "case ko of None \<Rightarrow> False
        | Some k \<Rightarrow> (case vo of None \<Rightarrow> False | Some x \<Rightarrow> map_of (write_leaves L sd) k = Some (Some x))"
    by simp
qed

lemma skeleton_simps [simp]:
  "skeleton (Module fs km) = Module (map skeleton_field fs) km"
  "skeleton (PyList xs) = PyList (map skeleton xs)"
  "skeleton (PyDict kvs) = PyDict (map (apsnd skeleton) kvs)"
  "skeleton (NamedArray a axes) = NamedArray () axes"
  "skeleton PyNone = PyNone"
  "skeleton (Leaf a) = Leaf ()"
  "skeleton_field (Field n v) = Field n (skeleton v)"
  "skeleton_field (Static n s) = Static n s"
  by (simp_all add: skeleton_def skeleton_field_def apsnd_def)

lemma on_device_simps [simp]:
  "on_device (Module fs km) = Module (map on_device_field fs) km"
  "on_device (PyList xs) = PyList (map on_device xs)"
  "on_device (PyDict kvs) = PyDict (map (apsnd on_device) kvs)"
  "on_device (NamedArray a axes) = NamedArray (device a) axes"
  "on_device PyNone = PyNone"
  "on_device (Leaf a) = Leaf (device a)"
  "on_device_field (Field n v) = Field n (on_device v)"
  "on_device_field (Static n s) = Static n s"
  by (simp_all add: on_device_def on_device_field_def apsnd_def)

lemma skeleton_eq_Module:
  "Module fs km = skeleton T \<longleftrightarrow> (\<exists>fs'. T = Module fs' km \<and> fs = map skeleton_field fs')"
  by (cases T) auto

lemma skeleton_eq_PyList:
  "PyList xs = skeleton T \<longleftrightarrow> (\<exists>xs'. T = PyList xs' \<and> xs = map skeleton xs')"
  by (cases T) auto

lemma skeleton_eq_PyDict:
  "PyDict kvs = skeleton T \<longleftrightarrow> (\<exists>kvs'. T = PyDict kvs' \<and> kvs = map (apsnd skeleton) kvs')"
  by (cases T) auto

lemma skeleton_eq_NamedArray:
  "NamedArray a axes = skeleton T \<longleftrightarrow> (\<exists>a'. T = NamedArray a' axes)"
  by (cases T) auto

lemma skeleton_eq_PyNone: "PyNone = skeleton T \<longleftrightarrow> T = PyNone"
  by (cases T) auto

lemma skeleton_eq_Leaf: "Leaf a = skeleton T \<longleftrightarrow> (\<exists>a'. T = Leaf a')"
  by (cases T) auto

lemma skeleton_eq_Field:
  "Field n v = skeleton_field F \<longleftrightarrow> (\<exists>v'. F = Field n v' \<and> v = skeleton v')"
  by (cases F) auto

lemma skeleton_eq_Static:
  "Static n s = skeleton_field F \<longleftrightarrow> F = Static n s"
  by (cases F) auto

lemmas skeleton_inversion =
  skeleton_eq_Module skeleton_eq_PyList skeleton_eq_PyDict skeleton_eq_NamedArray
  skeleton_eq_PyNone skeleton_eq_Leaf skeleton_eq_Field skeleton_eq_Static

lemma kept_append: "kept convert (A @ B) \<longleftrightarrow> kept convert A \<and> kept convert B"
  by (simp add: kept_def)

lemma kept_single: "kept convert [(ko, Some x)] \<longleftrightarrow> convert (Some x) = Inr (payload x)"
  by (simp add: kept_def)

lemma jnp_array_device: "convert (Some x) = Inr (payload x) \<Longrightarrow> jnp_array convert (Some x) = Inr (device x)"
  by (simp add: device_def jnp_array_def)

lemma from_reads:
  fixes d T :: "('a array, 's) pytree" and ds Ts :: "('a array, 's) pytree list"
    and kds kTs :: "(pystr \<times> ('a array, 's) pytree) list" and fds fTs :: "('a array, 's) field list"
  shows "skeleton d = skeleton T \<Longrightarrow> stored (tree_leaves T p) sd \<Longrightarrow> kept convert (tree_leaves T p) \<Longrightarrow>
      jax_tree_from_state_dict convert d sd p = Inr (on_device T)"
  and "map skeleton ds = map skeleton Ts \<Longrightarrow> stored (list_leaves Ts i p) sd \<Longrightarrow>
      kept convert (list_leaves Ts i p) \<Longrightarrow>
      from_list convert ds i sd p = Inr (map on_device Ts)"
  and "map (apsnd skeleton) kds = map (apsnd skeleton) kTs \<Longrightarrow>
      stored (items_leaves kTs p) sd \<Longrightarrow> kept convert (items_leaves kTs p) \<Longrightarrow>
      from_items convert kds sd p = Inr (map (apsnd on_device) kTs)"
  and "map (skeleton_field) fds = map (skeleton_field) fTs \<Longrightarrow>
      stored (fields_leaves fTs km p) sd \<Longrightarrow> kept convert (fields_leaves fTs km p) \<Longrightarrow>
      from_fields convert fds km sd p = Inr (map (on_device_field) fTs)"
proof (induction convert d sd p and convert ds i sd p and convert kds sd p and convert fds km sd p
       arbitrary: T and Ts and kTs and fTs
       rule: jax_tree_from_state_dict_from_list_from_items_from_fields.induct)
  case (1 convert fs km sd prefix)
  then show ?case by (auto simp: skeleton_inversion)
next
  case (2 convert xs sd prefix)
  then show ?case by (auto simp: skeleton_inversion)
next
  case (3 convert kvs sd prefix)
  then show ?case by (auto simp: skeleton_inversion)
next
  case (4 convert arr axes sd prefix)
  then show ?case by (auto simp: skeleton_inversion stored_single kept_single jnp_array_device)
next
  case (5 convert sd prefix)
  then show ?case by (auto simp: skeleton_inversion stored_single)
next
  case (6 convert x sd prefix)
  then show ?case by (auto simp: skeleton_inversion stored_single kept_single jnp_array_device)
next
  case (7 convert i sd prefix)
  then show ?case by simp
next
  case (8 convert item items i sd prefix)
  from 8(3) obtain T0 Ts0 where Ts: "Ts = T0 # Ts0"
    and h: "skeleton item = skeleton T0"
    and t: "map skeleton items = map skeleton Ts0"
    by (cases Ts) auto
  from 8(4) Ts have s1: "stored (tree_leaves T0 (apply_prefix prefix (Some (str_nat i)))) sd"
    and s2: "stored (list_leaves Ts0 (Suc i) prefix) sd"
    by (simp_all add: stored_append)
  from 8(5) Ts have k1: "kept convert (tree_leaves T0 (apply_prefix prefix (Some (str_nat i))))"
    and k2: "kept convert (list_leaves Ts0 (Suc i) prefix)"
    by (simp_all add: kept_append)
  from 8(1) [OF h s1 k1] 8(2) [OF _ t s2 k2] Ts show ?case by simp
next
  case (9 convert sd prefix)
  then show ?case by simp
next
  case (10 convert k v kvs sd prefix)
  from 10(3) obtain T0 Ts0 where Ts: "kTs = (k, T0) # Ts0"
    and h: "skeleton v = skeleton T0"
    and t: "map (apsnd skeleton) kvs = map (apsnd skeleton) Ts0"
    by (cases kTs) auto
  from 10(4) Ts have s1: "stored (tree_leaves T0 (apply_prefix prefix (Some k))) sd"
    and s2: "stored (items_leaves Ts0 prefix) sd"
    by (simp_all add: stored_append)
  from 10(5) Ts have k1: "kept convert (tree_leaves T0 (apply_prefix prefix (Some k)))"
    and k2: "kept convert (items_leaves Ts0 prefix)"
    by (simp_all add: kept_append)
  from 10(1) [OF h s1 k1] 10(2) [OF _ t s2 k2] Ts show ?case by simp
next
  case (11 convert km sd prefix)
  then show ?case by simp
next
  case (12 convert name s fs km sd prefix)
  from 12(2) obtain Ts0 where Ts: "fTs = Static name s # Ts0"
    and t: "map (skeleton_field) fs = map (skeleton_field) Ts0"
    by (cases fTs) (auto simp: skeleton_inversion)
  from 12(3) Ts have s2: "stored (fields_leaves Ts0 km prefix) sd" by simp
  from 12(4) Ts have k2: "kept convert (fields_leaves Ts0 km prefix)" by simp
  from 12(1) [OF t s2 k2] Ts show ?case by simp
next
  case (13 convert name v fs km sd prefix)
  from 13(3) obtain T0 Ts0 where Ts: "fTs = Field name T0 # Ts0"
    and h: "skeleton v = skeleton T0"
    and t: "map (skeleton_field) fs = map (skeleton_field) Ts0"
    by (cases fTs) (auto simp: skeleton_inversion)
  from 13(4) Ts have s1: "stored (tree_leaves T0 (apply_prefix prefix (key_map_get km name))) sd"
    and s2: "stored (fields_leaves Ts0 km prefix) sd"
    by (simp_all add: stored_append)
  from 13(5) Ts have k1: "kept convert (tree_leaves T0 (apply_prefix prefix (key_map_get km name)))"
    and k2: "kept convert (fields_leaves Ts0 km prefix)"
    by (simp_all add: kept_append)
  from 13(1) [OF h s1 k1] 13(2) [OF _ t s2 k2] Ts show ?case by simp
qed

lemma payload_device: "payload (device x) = payload x"
  by (simp add: device_def)

lemma numerically_equal_on_device: "numerically_equal (on_device T) T"
proof -
  have "payload \<circ> device = (payload :: 'a array \<Rightarrow> 'a)" by (rule ext) (simp add: payload_device)
  then show ?thesis
    by (simp add: numerically_equal_def on_device_def pytree.map_comp comp_def payload_device)
qed


lemma round_trip_general:
  fixes donor T :: "('a array, 's) pytree"
  assumes "same_shape donor T" and "addressable T prefix" and "kept convert (tree_leaves T prefix)"
  shows "\<exists>sd. jax_tree_to_state_dict T prefix = Inr sd
            \<and> jax_tree_from_state_dict convert donor sd prefix = Inr (on_device T)"
proof -
  let ?L = "tree_leaves T prefix"
  from assms(2) have keys: "list_all (\<lambda>(k, v). k \<noteq> None \<and> v \<noteq> None) ?L" and d: "distinct (map fst ?L)"
    by (simp_all add: addressable_def)
  from keys have hk: "list_all has_key ?L" by (auto simp: list_all_iff has_key_def)
  have ser: "jax_tree_to_state_dict T prefix = Inr (write_leaves ?L [])"
    unfolding jax_tree_to_state_dict_def by (rule update_writes(1) [OF hk])
  have st: "stored ?L (write_leaves ?L [])" by (rule write_leaves_stored [OF d keys])
  have "jax_tree_from_state_dict convert donor (write_leaves ?L []) prefix = Inr (on_device T)"
    by (rule from_reads(1) [OF assms(1) [unfolded same_shape_def] st assms(3)])
  with ser show ?thesis by blast
qed

text \<open>
  Claim C1, with the trees it holds for named. For a tree whose leaves are all arrays,
  addressed from the prefix with keys that are not \<^verbatim>\<open>None\<close> and pairwise distinct,
  every array being one that \<^verbatim>\<open>jnp.array\<close> returns with its content unchanged,
  and a donor of the same shape: \<^verbatim>\<open>jax_tree_to_state_dict\<close> returns a dict, and
  \<^verbatim>\<open>jax_tree_from_state_dict\<close> of the donor and that dict returns a tree that is
  numerically equal to the tree, leaf by leaf (it is the tree with every array on the
  device).
\<close>

theorem state_dict_round_trip:
  fixes donor T :: "('a array, 's) pytree"
  assumes "same_shape donor T" and "addressable T prefix" and "kept convert (tree_leaves T prefix)"
  shows "\<exists>sd R. jax_tree_to_state_dict T prefix = Inr sd
            \<and> jax_tree_from_state_dict convert donor sd prefix = Inr R
            \<and> R = on_device T \<and> numerically_equal R T"
  using round_trip_general [OF assms] numerically_equal_on_device [of T] by blast

text \<open>
  A witness under the default configuration of JAX, with 32-bit arrays: a module with a
  key map, holding a list of modules and a dict.
\<close>

theorem state_dict_round_trip_witness:
  "same_shape
      (Module [Field (py ''blocks'') (PyList [Module [Field (py ''w'') (NamedArray (JaxArray (32, [0])) [(py ''embed'', 2)]),
                                                    Static (py ''cfg'') ()] [(py ''w'', Some (py ''weight''))]]),
               Field (py ''extra'') (PyDict [(py ''bias'', Leaf (JaxArray (32, [0])))])] [(py ''blocks'', Some (py ''h''))]
        :: (int_content array, unit) pytree)
      (Module [Field (py ''blocks'') (PyList [Module [Field (py ''w'') (NamedArray (NdArray (32, [1, 2])) [(py ''embed'', 2)]),
                                                    Static (py ''cfg'') ()] [(py ''w'', Some (py ''weight''))]]),
               Field (py ''extra'') (PyDict [(py ''bias'', Leaf (NdArray (32, [3])))])] [(py ''blocks'', Some (py ''h''))]
        :: (int_content array, unit) pytree)
   \<and> addressable
      (Module [Field (py ''blocks'') (PyList [Module [Field (py ''w'') (NamedArray (NdArray (32, [1, 2])) [(py ''embed'', 2)]),
                                                    Static (py ''cfg'') ()] [(py ''w'', Some (py ''weight''))]]),
               Field (py ''extra'') (PyDict [(py ''bias'', Leaf (NdArray (32, [3])))])] [(py ''blocks'', Some (py ''h''))]
        :: (int_content array, unit) pytree)
      (Some (py ''model''))
   \<and> kept jnp_x32 (tree_leaves
      (Module [Field (py ''blocks'') (PyList [Module [Field (py ''w'') (NamedArray (NdArray (32, [1, 2])) [(py ''embed'', 2)]),
                                                    Static (py ''cfg'') ()] [(py ''w'', Some (py ''weight''))]]),
               Field (py ''extra'') (PyDict [(py ''bias'', Leaf (NdArray (32, [3])))])] [(py ''blocks'', Some (py ''h''))]
        :: (int_content array, unit) pytree)
      (Some (py ''model'')))
   \<and> (\<exists>sd R. jax_tree_to_state_dict
          (Module [Field (py ''blocks'') (PyList [Module [Field (py ''w'') (NamedArray (NdArray (32, [1, 2])) [(py ''embed'', 2)]),
                                                        Static (py ''cfg'') ()] [(py ''w'', Some (py ''weight''))]]),
                   Field (py ''extra'') (PyDict [(py ''bias'', Leaf (NdArray (32, [3])))])] [(py ''blocks'', Some (py ''h''))]
            :: (int_content array, unit) pytree)
          (Some (py ''model'')) = Inr sd
        \<and> jax_tree_from_state_dict jnp_x32
          (Module [Field (py ''blocks'') (PyList [Module [Field (py ''w'') (NamedArray (JaxArray (32, [0])) [(py ''embed'', 2)]),
                                                        Static (py ''cfg'') ()] [(py ''w'', Some (py ''weight''))]]),
                   Field (py ''extra'') (PyDict [(py ''bias'', Leaf (JaxArray (32, [0])))])] [(py ''blocks'', Some (py ''h''))])
          sd (Some (py ''model'')) = Inr R
        \<and> R = on_device
          (Module [Field (py ''blocks'') (PyList [Module [Field (py ''w'') (NamedArray (NdArray (32, [1, 2])) [(py ''embed'', 2)]),
                                                        Static (py ''cfg'') ()] [(py ''w'', Some (py ''weight''))]]),
                   Field (py ''extra'') (PyDict [(py ''bias'', Leaf (NdArray (32, [3])))])] [(py ''blocks'', Some (py ''h''))])
        \<and> numerically_equal R
          (Module [Field (py ''blocks'') (PyList [Module [Field (py ''w'') (NamedArray (NdArray (32, [1, 2])) [(py ''embed'', 2)]),
                                                        Static (py ''cfg'') ()] [(py ''w'', Some (py ''weight''))]]),
                   Field (py ''extra'') (PyDict [(py ''bias'', Leaf (NdArray (32, [3])))])] [(py ''blocks'', Some (py ''h''))]))"
proof -
  let ?D = "Module [Field (py ''blocks'') (PyList [Module [Field (py ''w'') (NamedArray (JaxArray (32, [0])) [(py ''embed'', 2)]),
                                                    Static (py ''cfg'') ()] [(py ''w'', Some (py ''weight''))]]),
               Field (py ''extra'') (PyDict [(py ''bias'', Leaf (JaxArray (32, [0])))])] [(py ''blocks'', Some (py ''h''))]
        :: (int_content array, unit) pytree"
  let ?T = "Module [Field (py ''blocks'') (PyList [Module [Field (py ''w'') (NamedArray (NdArray (32, [1, 2])) [(py ''embed'', 2)]),
                                                    Static (py ''cfg'') ()] [(py ''w'', Some (py ''weight''))]]),
               Field (py ''extra'') (PyDict [(py ''bias'', Leaf (NdArray (32, [3])))])] [(py ''blocks'', Some (py ''h''))]
        :: (int_content array, unit) pytree"
  have s: "same_shape ?D ?T" by (simp add: same_shape_def)
  have a: "addressable ?T (Some (py ''model''))"
    by (simp add: addressable_def key_map_get_def str_nat.simps digit_char_def py_def)
  have k: "kept jnp_x32 (tree_leaves ?T (Some (py ''model'')))"
    by (simp add: kept_def jnp_x32_def)
  from s a k state_dict_round_trip [OF s a k] show ?thesis by (intro conjI)
qed

text \<open>
  The claim as worded, for every tree without \<^verbatim>\<open>None\<close> leaves, fails in two
  ways. When two leaves are addressed with the same key, the later write replaces the
  earlier one and both leaves are read back from it: a dict key with a dot meets the
  path of a nested dict, and a key map can send two fields to one key. And what is read
  back is what \<^verbatim>\<open>jnp.array\<close> makes of the stored array: under the default
  configuration of JAX a 64-bit array comes back narrowed to 32 bits, with another
  value when the value does not fit.
\<close>

theorem state_dict_round_trip_counterexample:
  "jax_tree_to_state_dict
      (PyDict [(py ''a.b'', Leaf (JaxArray (32, [1]))), (py ''a'', PyDict [(py ''b'', Leaf (JaxArray (32, [2])))])]
        :: (int_content array, unit) pytree) None
     = Inr [(py ''a.b'', Some (JaxArray (32, [2])))]
   \<and> jax_tree_from_state_dict jnp_x32
      (PyDict [(py ''a.b'', Leaf (JaxArray (32, [1]))), (py ''a'', PyDict [(py ''b'', Leaf (JaxArray (32, [2])))])]
        :: (int_content array, unit) pytree) [(py ''a.b'', Some (JaxArray (32, [2])))] None
     = Inr (PyDict [(py ''a.b'', Leaf (JaxArray (32, [2]))), (py ''a'', PyDict [(py ''b'', Leaf (JaxArray (32, [2])))])])
   \<and> \<not> numerically_equal
      (PyDict [(py ''a.b'', Leaf (JaxArray (32, [2]))), (py ''a'', PyDict [(py ''b'', Leaf (JaxArray (32, [2])))])]
        :: (int_content array, unit) pytree)
      (PyDict [(py ''a.b'', Leaf (JaxArray (32, [1]))), (py ''a'', PyDict [(py ''b'', Leaf (JaxArray (32, [2])))])])
   \<and> jax_tree_to_state_dict
      (Module [Field (py ''wte'') (Leaf (JaxArray (32, [1]))), Field (py ''lm_head'') (Leaf (JaxArray (32, [2])))]
         [(py ''lm_head'', Some (py ''wte''))] :: (int_content array, unit) pytree) (Some (py ''model''))
     = Inr [(py ''model.wte'', Some (JaxArray (32, [2])))]
   \<and> jax_tree_from_state_dict jnp_x32
      (Module [Field (py ''wte'') (Leaf (JaxArray (32, [1]))), Field (py ''lm_head'') (Leaf (JaxArray (32, [2])))]
         [(py ''lm_head'', Some (py ''wte''))] :: (int_content array, unit) pytree)
      [(py ''model.wte'', Some (JaxArray (32, [2])))] (Some (py ''model''))
     = Inr (Module [Field (py ''wte'') (Leaf (JaxArray (32, [2]))), Field (py ''lm_head'') (Leaf (JaxArray (32, [2])))]
         [(py ''lm_head'', Some (py ''wte''))])
   \<and> addressable (PyDict [(py ''w'', Leaf (NdArray (64, [1099511627781])))] :: (int_content array, unit) pytree) None
   \<and> jax_tree_to_state_dict
      (PyDict [(py ''w'', Leaf (NdArray (64, [1099511627781])))] :: (int_content array, unit) pytree) None
     = Inr [(py ''w'', Some (NdArray (64, [1099511627781])))]
   \<and> jax_tree_from_state_dict jnp_x32
      (PyDict [(py ''w'', Leaf (NdArray (64, [1099511627781])))] :: (int_content array, unit) pytree)
      [(py ''w'', Some (NdArray (64, [1099511627781])))] None
     = Inr (PyDict [(py ''w'', Leaf (JaxArray (32, [5])))])
   \<and> \<not> numerically_equal
      (PyDict [(py ''w'', Leaf (JaxArray (32, [5])))] :: (int_content array, unit) pytree)
      (PyDict [(py ''w'', Leaf (NdArray (64, [1099511627781])))])"
  by (simp add: jax_tree_to_state_dict_def key_map_get_def numerically_equal_def py_def
        jnp_array_def jnp_x32_def wrap32_def addressable_def)

subsection \<open>Key maps along a path\<close>



















section \<open>Properties of the stack and unstack adapter\<close>

subsection \<open>Decimal numerals\<close>

lemma py_dot: "py ''.'' = [46]"
  by (simp add: py_def)

lemma py_zero: "py ''0'' = [48]"
  by (simp add: py_def)

lemma digit_value_ascii: "ascii_digit c \<Longrightarrow> digit_value rt c = Some (c - 48)"
  by (simp add: ascii_digit_def digit_value_def)

lemma is_digit_ascii: "ascii_digit c \<Longrightarrow> is_digit rt c"
  by (simp add: is_digit_def digit_value_ascii)

lemma ascii_digit_digit_char: "d < 10 \<Longrightarrow> ascii_digit (digit_char d)"
  by (simp add: ascii_digit_def digit_char_def)

lemma digit_value_digit_char: "d < 10 \<Longrightarrow> digit_value rt (digit_char d) = Some d"
  by (simp add: digit_value_def digit_char_def)

lemma str_nat_ascii: "list_all ascii_digit (str_nat n)"
  by (induction n rule: str_nat.induct) (subst str_nat.simps, simp add: ascii_digit_digit_char)

lemma str_nat_digits: "list_all (is_digit rt) (str_nat n)"
  using str_nat_ascii [of n] by (auto simp: list_all_iff is_digit_ascii)

lemma str_nat_nonempty: "str_nat n \<noteq> []"
  by (subst str_nat.simps) simp

lemma int_of_digits_snoc:
  "int_of_digits rt (ds @ [c]) = 10 * int_of_digits rt ds + (case digit_value rt c of None \<Rightarrow> 0 | Some d \<Rightarrow> d)"
  by (simp add: int_of_digits_def)

lemma int_of_digits_str_nat: "int_of_digits rt (str_nat n) = n"
proof (induction n rule: str_nat.induct)
  case (1 n)
  show ?case
  proof (cases "n < 10")
    case True
    then show ?thesis
      by (subst str_nat.simps) (simp add: int_of_digits_def digit_value_digit_char)
  next
    case False
    then have "int_of_digits rt (str_nat n)
        = 10 * int_of_digits rt (str_nat (n div 10))
          + (case digit_value rt (digit_char (n mod 10)) of None \<Rightarrow> 0 | Some d \<Rightarrow> d)"
      by (subst str_nat.simps) (simp add: int_of_digits_snoc)
    with False 1 show ?thesis
      by (simp add: digit_value_digit_char)
  qed
qed

lemma digit_char_of_char: "ascii_digit c \<Longrightarrow> digit_char (c - 48) = c"
  by (auto simp: ascii_digit_def digit_char_def)

lemma of_char_digit_less: "ascii_digit c \<Longrightarrow> c - 48 < (10::nat)"
  by (auto simp: ascii_digit_def)

lemma int_of_digits_pos:
  "list_all ascii_digit ds \<Longrightarrow> ds \<noteq> [] \<Longrightarrow> take 1 ds \<noteq> py ''0'' \<Longrightarrow> 0 < int_of_digits rt ds"
proof (induction ds rule: rev_induct)
  case Nil
  then show ?case by simp
next
  case (snoc c ds)
  show ?case
  proof (cases "ds = []")
    case True
    with snoc.prems show ?thesis
      by (auto simp: int_of_digits_def digit_value_ascii ascii_digit_def py_zero)
  next
    case False
    with snoc have "0 < int_of_digits rt ds" by (cases ds) auto
    then show ?thesis by (simp add: int_of_digits_snoc)
  qed
qed

lemma str_nat_int_of_digits:
  "list_all ascii_digit ds \<Longrightarrow> ds \<noteq> [] \<Longrightarrow> no_leading_zero ds \<Longrightarrow> str_nat (int_of_digits rt ds) = ds"
proof (induction ds rule: rev_induct)
  case Nil
  then show ?case by simp
next
  case (snoc c ds)
  have c: "ascii_digit c" using snoc.prems by simp
  show ?case
  proof (cases "ds = []")
    case True
    then show ?thesis
      using c by (subst str_nat.simps)
        (simp add: int_of_digits_def digit_value_ascii of_char_digit_less digit_char_of_char)
  next
    case False
    have nz: "take 1 ds \<noteq> py ''0''"
      using snoc.prems False by (cases ds) (auto simp: no_leading_zero_def py_zero)
    have ds: "list_all ascii_digit ds" using snoc.prems by simp
    have pos: "0 < int_of_digits rt ds" using int_of_digits_pos [OF ds False nz] .
    have ih: "str_nat (int_of_digits rt ds) = ds"
      using snoc.IH ds False nz by (simp add: no_leading_zero_def)
    let ?d = "c - (48::nat)"
    have d: "?d < 10" using c by (rule of_char_digit_less)
    have "str_nat (10 * int_of_digits rt ds + ?d)
        = str_nat ((10 * int_of_digits rt ds + ?d) div 10) @ [digit_char ((10 * int_of_digits rt ds + ?d) mod 10)]"
      using pos by (subst str_nat.simps) simp
    also have "\<dots> = ds @ [c]"
      using d ih c by (simp add: digit_char_of_char)
    finally show ?thesis using c by (simp add: int_of_digits_snoc digit_value_ascii)
  qed
qed

subsection \<open>The key pattern\<close>

lemma pattern_match_SomeD:
  assumes "pattern_match rt prefix k = Some (g1, g2)"
  shows "\<exists>tail. k = escaped prefix @ py ''.'' @ g1 @ py ''.'' @ g2 @ tail
            \<and> (tail = [] \<or> hd tail = newline) \<and> newline \<notin> set g2"
    and "g1 \<noteq> []" and "list_all (is_digit rt) g1"
proof -
  let ?lit = "escaped prefix @ py ''.''"
  let ?r = "drop (length ?lit) k"
  from assms have lit: "take (length ?lit) k = ?lit"
    and g1: "g1 = takeWhile (is_digit rt) ?r" and ne: "g1 \<noteq> []"
    and dot: "take 1 (dropWhile (is_digit rt) ?r) = py ''.''"
    and g2: "g2 = takeWhile (\<lambda>c. c \<noteq> newline) (drop 1 (dropWhile (is_digit rt) ?r))"
    by (auto simp: pattern_match_def startswith_def Let_def split: if_splits)
  show "g1 \<noteq> []" by (rule ne)
  show "list_all (is_digit rt) g1"
    unfolding g1 list_all_iff by (auto dest: set_takeWhileD)
  let ?rest = "drop 1 (dropWhile (is_digit rt) ?r)"
  have k: "k = ?lit @ ?r" using lit by (metis append_take_drop_id)
  have r: "?r = g1 @ dropWhile (is_digit rt) ?r" unfolding g1 by simp
  have d: "dropWhile (is_digit rt) ?r = py ''.'' @ ?rest"
    using dot by (metis append_take_drop_id)
  have rest: "?rest = g2 @ dropWhile (\<lambda>c. c \<noteq> newline) ?rest" unfolding g2 by simp
  let ?tail = "dropWhile (\<lambda>c. c \<noteq> newline) ?rest"
  have "k = escaped prefix @ py ''.'' @ g1 @ py ''.'' @ g2 @ ?tail"
    using k r d rest by (metis append_assoc)
  moreover have "?tail = [] \<or> hd ?tail = newline"
    using hd_dropWhile [of "\<lambda>c. c \<noteq> newline" ?rest] by auto
  moreover have "newline \<notin> set g2"
    unfolding g2 by (auto dest: set_takeWhileD)
  ultimately show "\<exists>tail. k = escaped prefix @ py ''.'' @ g1 @ py ''.'' @ g2 @ tail
            \<and> (tail = [] \<or> hd tail = newline) \<and> newline \<notin> set g2"
    by blast
qed

lemma pattern_match_key:
  assumes "pattern_match rt prefix k = Some (g1, g2)" and "newline \<notin> set k"
  shows "k = escaped prefix @ py ''.'' @ g1 @ py ''.'' @ g2"
proof -
  from pattern_match_SomeD(1) [OF assms(1)] obtain tail where
    k: "k = escaped prefix @ py ''.'' @ g1 @ py ''.'' @ g2 @ tail" and t: "tail = [] \<or> hd tail = newline"
    by blast
  have "tail = []"
  proof (rule ccontr)
    assume "tail \<noteq> []"
    with t have "newline \<in> set tail" by (metis hd_in_set)
    with k assms(2) show False by auto
  qed
  with k show ?thesis by simp
qed

lemma not_is_digit_dot: "\<not> is_digit rt 46"
  by (simp add: is_digit_def digit_value_def)

lemma pattern_match_intro:
  assumes "list_all (is_digit rt) g1" and "g1 \<noteq> []" and "newline \<notin> set g2"
  shows "pattern_match rt prefix (escaped prefix @ py ''.'' @ g1 @ py ''.'' @ g2) = Some (g1, g2)"
proof -
  have tw: "takeWhile (is_digit rt) (g1 @ py ''.'' @ g2) = g1"
    using assms(1) by (simp add: list_all_iff not_is_digit_dot py_dot)
  have dw: "dropWhile (is_digit rt) (g1 @ py ''.'' @ g2) = py ''.'' @ g2"
    using assms(1) by (simp add: list_all_iff not_is_digit_dot py_dot)
  have g2: "takeWhile (\<lambda>c. c \<noteq> newline) g2 = g2"
    using assms(3) by auto
  show ?thesis
    using tw dw g2 assms(2) by (simp add: pattern_match_def startswith_def Let_def)
qed

subsection \<open>The first loop, slot by slot\<close>

lemma nth_Cons_replicate: "j \<le> n \<Longrightarrow> (x # replicate n x) ! j = x"
  using nth_replicate [of j "Suc n" x] by simp

lemma stack_loop_Cons:
  "stack_loop rt ((k, v) # items) prefix vd ttv =
     (case pattern_match rt prefix k of
        Some (g1, bk) \<Rightarrow>
          if slot ttv bk (int_of_digits rt g1) \<noteq> None then Inl (AssertionError (py ''Duplicate key '' @ k))
          else stack_loop rt items prefix vd (put_slot bk (int_of_digits rt g1) v ttv)
      | None \<Rightarrow> stack_loop rt items prefix (AList.update k v vd) ttv)"
  by (auto simp: slot_def put_slot_def Let_def nth_append nth_Cons_replicate split: option.splits)

lemma slot_put_slot:
  "slot (put_slot bk i v ttv) bk' i' = (if bk' = bk \<and> i' = i then v else slot ttv bk' i')"
  by (auto simp: slot_def put_slot_def Let_def update_conv' nth_append nth_list_update nth_Cons_replicate split: option.splits)

lemma dom_put_slot: "fst ` set (put_slot bk i v ttv) = insert bk (fst ` set ttv)"
  by (simp add: put_slot_def Let_def dom_update)

subsection \<open>The duplicate-key assertion\<close>

lemma canonical_match_key:
  assumes "pattern_match rt prefix k = Some (g1, g2)" and "newline \<notin> set k" and "canonical_numeral g1"
  shows "k = escaped prefix @ py ''.'' @ str_nat (int_of_digits rt g1) @ py ''.'' @ g2"
  using pattern_match_key [OF assms(1,2)] pattern_match_SomeD(2) [OF assms(1)] assms(3)
  by (simp add: str_nat_int_of_digits canonical_numeral_def)

lemma exact_keys_Cons: "exact_keys rt prefix (kv # sd) \<Longrightarrow> exact_keys rt prefix sd"
  by (simp add: exact_keys_def)

lemma exact_keys_canonical:
  "single_line_keys sd \<Longrightarrow> canonical_keys rt prefix sd \<Longrightarrow> exact_keys rt prefix sd"
proof -
  assume sl: "single_line_keys sd" and ca: "canonical_keys rt prefix sd"
  {
    fix k v g1 g2
    assume kv: "(k, v) \<in> set sd" and m: "pattern_match rt prefix k = Some (g1, g2)"
    from sl kv have nl: "newline \<notin> set k" by (auto simp: single_line_keys_def list_all_iff)
    from ca kv m have nz: "canonical_numeral g1" by (auto simp: canonical_keys_def list_all_iff)
    from canonical_match_key [OF m nl nz]
    have "k = escaped prefix @ py ''.'' @ str_nat (int_of_digits rt g1) @ py ''.'' @ g2" .
  }
  then show ?thesis unfolding exact_keys_def by blast
qed

lemma stack_loop_exact_success:
  assumes "distinct (map fst items)"
      and "exact_keys rt prefix items"
      and "fst ` set items \<inter> seen = {}"
      and "\<And>bk i. slot ttv bk i \<noteq> None \<Longrightarrow> escaped prefix @ py ''.'' @ str_nat i @ py ''.'' @ bk \<in> seen"
  shows "\<exists>r. stack_loop rt items prefix vd ttv = Inr r"
  using assms
proof (induction items arbitrary: vd ttv seen)
  case Nil
  then show ?case by simp
next
  case (Cons kv items)
  obtain k v where kv: "kv = (k, v)" by (cases kv)
  have d: "distinct (map fst items)" and c: "exact_keys rt prefix items"
    and knew: "k \<notin> seen" and kitems: "k \<notin> fst ` set items"
    using Cons.prems kv by (auto simp: exact_keys_def)
  have disj: "fst ` set items \<inter> insert k seen = {}"
    using Cons.prems(3) kitems kv by auto
  show ?case
  proof (cases "pattern_match rt prefix k")
    case None
    have "\<exists>r. stack_loop rt items prefix (AList.update k v vd) ttv = Inr r"
      by (rule Cons.IH [OF d c disj]) (use Cons.prems(4) in blast)
    with None kv show ?thesis by (simp add: stack_loop_Cons del: stack_loop.simps)
  next
    case (Some g)
    obtain g1 bk where g: "g = (g1, bk)" by (cases g)
    have key: "k = escaped prefix @ py ''.'' @ str_nat (int_of_digits rt g1) @ py ''.'' @ bk"
      using Cons.prems(2) kv Some g by (auto simp: exact_keys_def)
    have free: "slot ttv bk (int_of_digits rt g1) = None"
    proof (rule ccontr)
      assume "slot ttv bk (int_of_digits rt g1) \<noteq> None"
      from Cons.prems(4) [OF this] key knew show False by simp
    qed
    have "\<exists>r. stack_loop rt items prefix vd (put_slot bk (int_of_digits rt g1) v ttv) = Inr r"
    proof (rule Cons.IH [OF d c disj])
      fix bk' i
      assume "slot (put_slot bk (int_of_digits rt g1) v ttv) bk' i \<noteq> None"
      then show "escaped prefix @ py ''.'' @ str_nat i @ py ''.'' @ bk' \<in> insert k seen"
        using key Cons.prems(4) by (auto simp: slot_put_slot split: if_splits)
    qed
    with Some g kv free show ?thesis by (simp add: stack_loop_Cons del: stack_loop.simps)
  qed
qed


lemma vectorize_loop_no_assertion:
  "vectorize_loop rt groups prefix vd \<noteq> Inl (AssertionError msg)"
  by (induction groups prefix vd rule: vectorize_loop.induct)
     (auto simp: np_stack_def Let_def split: sum.splits option.splits if_splits)

lemma slot_Nil: "slot [] bk i = None"
  by (simp add: slot_def)

text \<open>
  Claim C10, with the line breaks and the digits named. For a dict (its keys pairwise
  distinct) whose keys hold no line break and whose keys matched by the pattern carry
  canonical indices (written with the digits \<^verbatim>\<open>0\<close> to \<^verbatim>\<open>9\<close>, without
  leading zeros), \<^verbatim>\<open>stack_state_dict\<close> never fails with the duplicate-key
  assertion, whatever the values are and whatever digits the runtime knows.
\<close>

theorem duplicate_key_unreachable:
  assumes "distinct (map fst sd)"
      and "single_line_keys sd"
      and "canonical_keys rt prefix sd"
  shows "\<forall>msg. stack_state_dict rt sd prefix \<noteq> Inl (AssertionError msg)"
proof -
  have "\<exists>r. stack_loop rt sd prefix [] [] = Inr r"
    by (rule stack_loop_exact_success [OF assms(1) exact_keys_canonical [OF assms(2,3)], of "{}"])
       (simp_all add: slot_Nil)
  then obtain vd ttv where "stack_loop rt sd prefix [] [] = Inr (vd, ttv)" by auto
  then show ?thesis
    by (simp add: stack_state_dict_def vectorize_loop_no_assertion)
qed

theorem duplicate_key_unreachable_witness:
  "\<forall>msg. stack_state_dict example_runtime
      [(py ''blocks.0.w'', Some (Tensor (Numeric ''int64'') [2] [Some 1, Some 2])),
       (py ''ln.b'', Some (Tensor (Numeric ''int64'') [1] [Some 5])),
       (py ''blocks.1.w'', Some (Tensor (Numeric ''int64'') [2] [Some 3, Some 4]))] (Some (py ''blocks''))
     \<noteq> Inl (AssertionError msg)"
proof (rule duplicate_key_unreachable)
  show "distinct (map fst [(py ''blocks.0.w'', Some (Tensor (Numeric ''int64'') [2] [Some (1::int), Some 2])),
       (py ''ln.b'', Some (Tensor (Numeric ''int64'') [1] [Some 5])),
       (py ''blocks.1.w'', Some (Tensor (Numeric ''int64'') [2] [Some 3, Some 4]))])"
    by (simp add: py_def)
  show "single_line_keys [(py ''blocks.0.w'', Some (Tensor (Numeric ''int64'') [2] [Some (1::int), Some 2])),
       (py ''ln.b'', Some (Tensor (Numeric ''int64'') [1] [Some 5])),
       (py ''blocks.1.w'', Some (Tensor (Numeric ''int64'') [2] [Some 3, Some 4]))]"
    by (simp add: single_line_keys_def newline_def py_def)
  show "canonical_keys example_runtime (Some (py ''blocks''))
      [(py ''blocks.0.w'', Some (Tensor (Numeric ''int64'') [2] [Some (1::int), Some 2])),
       (py ''ln.b'', Some (Tensor (Numeric ''int64'') [1] [Some 5])),
       (py ''blocks.1.w'', Some (Tensor (Numeric ''int64'') [2] [Some 3, Some 4]))]"
    by (simp add: canonical_keys_def pattern_match_def startswith_def escaped_def is_digit_def
          digit_value_def canonical_numeral_def ascii_digit_def no_leading_zero_def py_def newline_def)
qed

text \<open>
  The claim as worded fails in two ways. On keys with a line break: group 2 of the
  pattern stops at the line break, so two distinct keys with the canonical index
  \<^verbatim>\<open>0\<close> share the block key \<^verbatim>\<open>w\<close>, and the second one fails the
  assertion. And on digits outside ASCII: the Arabic-Indic zero is a numeral without
  leading zero that \<^verbatim>\<open>int\<close> reads as 0, so it meets the key with index
  \<^verbatim>\<open>0\<close>.
\<close>

theorem duplicate_key_line_break_counterexample:
  "distinct (map fst
      [(py ''blocks.0.w'' @ [newline] @ py ''a'', Some (Tensor (Numeric ''int64'') [1] [Some (1::int)])),
       (py ''blocks.0.w'' @ [newline] @ py ''b'', Some (Tensor (Numeric ''int64'') [1] [Some 2]))])
   \<and> canonical_keys example_runtime (Some (py ''blocks''))
      [(py ''blocks.0.w'' @ [newline] @ py ''a'', Some (Tensor (Numeric ''int64'') [1] [Some (1::int)])),
       (py ''blocks.0.w'' @ [newline] @ py ''b'', Some (Tensor (Numeric ''int64'') [1] [Some 2]))]
   \<and> stack_state_dict example_runtime
      [(py ''blocks.0.w'' @ [newline] @ py ''a'', Some (Tensor (Numeric ''int64'') [1] [Some 1])),
       (py ''blocks.0.w'' @ [newline] @ py ''b'', Some (Tensor (Numeric ''int64'') [1] [Some 2]))] (Some (py ''blocks''))
     = Inl (AssertionError (py ''Duplicate key blocks.0.w'' @ [newline] @ py ''b''))
   \<and> distinct (map fst
      [(py ''blocks.0.w'', Some (Tensor (Numeric ''int64'') [1] [Some (1::int)])),
       (py ''blocks.'' @ [1632] @ py ''.w'', Some (Tensor (Numeric ''int64'') [1] [Some 2]))])
   \<and> single_line_keys
      [(py ''blocks.0.w'', Some (Tensor (Numeric ''int64'') [1] [Some (1::int)])),
       (py ''blocks.'' @ [1632] @ py ''.w'', Some (Tensor (Numeric ''int64'') [1] [Some 2]))]
   \<and> pattern_match example_runtime (Some (py ''blocks'')) (py ''blocks.'' @ [1632] @ py ''.w'')
     = Some ([1632], py ''w'')
   \<and> no_leading_zero [1632]
   \<and> stack_state_dict example_runtime
      [(py ''blocks.0.w'', Some (Tensor (Numeric ''int64'') [1] [Some 1])),
       (py ''blocks.'' @ [1632] @ py ''.w'', Some (Tensor (Numeric ''int64'') [1] [Some 2]))] (Some (py ''blocks''))
     = Inl (AssertionError (py ''Duplicate key blocks.'' @ [1632] @ py ''.w''))"
  by (simp add: canonical_keys_def pattern_match_def startswith_def escaped_def is_digit_def
        digit_value_def canonical_numeral_def ascii_digit_def single_line_keys_def
        no_leading_zero_def newline_def stack_state_dict_def int_of_digits_def py_def example_runtime_def)

subsection \<open>Duplicates and gaps\<close>

lemma stack_loop_occupied_fires:
  assumes "slot ttv bk i \<noteq> None" and "(k2, v2) \<in> set items" and "hits rt prefix k2 bk i"
  shows "\<exists>msg. stack_loop rt items prefix vd ttv = Inl (AssertionError msg)"
  using assms
proof (induction items arbitrary: vd ttv)
  case Nil
  then show ?case by simp
next
  case (Cons kv items)
  obtain k v where kv: "kv = (k, v)" by (cases kv)
  show ?case
  proof (cases "pattern_match rt prefix k")
    case None
    with Cons.prems kv have "(k2, v2) \<in> set items" by (auto simp: hits_def)
    from Cons.IH [OF Cons.prems(1) this Cons.prems(3)] None kv show ?thesis
      by (simp add: stack_loop_Cons del: stack_loop.simps)
  next
    case (Some g)
    obtain g1 bk' where g: "g = (g1, bk')" by (cases g)
    show ?thesis
    proof (cases "slot ttv bk' (int_of_digits rt g1) \<noteq> None")
      case True
      with Some g kv show ?thesis by (simp add: stack_loop_Cons del: stack_loop.simps)
    next
      case False
      then have ne: "\<not> (bk = bk' \<and> i = int_of_digits rt g1)" using Cons.prems(1) by auto
      then have occ: "slot (put_slot bk' (int_of_digits rt g1) v ttv) bk i \<noteq> None"
        using Cons.prems(1) by (auto simp: slot_put_slot)
      have "(k2, v2) \<in> set items"
        using Cons.prems(2,3) kv Some g ne by (auto simp: hits_def)
      from Cons.IH [OF occ this Cons.prems(3)] False Some g kv show ?thesis
        by (simp add: stack_loop_Cons del: stack_loop.simps)
    qed
  qed
qed

lemma stack_loop_append:
  "stack_loop rt (pre @ items) prefix vd ttv =
     (case stack_loop rt pre prefix vd ttv of
        Inl e \<Rightarrow> Inl e
      | Inr (vd', ttv') \<Rightarrow> stack_loop rt items prefix vd' ttv')"
proof (induction pre arbitrary: vd ttv)
  case Nil
  then show ?case by simp
next
  case (Cons kv pre)
  obtain k v where kv: "kv = (k, v)" by (cases kv)
  show ?case
    unfolding kv append_Cons stack_loop_Cons
    by (simp add: Cons.IH split: option.splits)
qed

lemma stack_loop_error: "stack_loop rt items prefix vd ttv = Inl e \<Longrightarrow> \<exists>msg. e = AssertionError msg"
proof (induction items arbitrary: vd ttv)
  case Nil
  then show ?case by simp
next
  case (Cons kv items)
  obtain k v where kv: "kv = (k, v)" by (cases kv)
  from Cons.prems show ?case
    unfolding kv stack_loop_Cons
    by (auto split: option.splits if_splits dest: Cons.IH)
qed

lemma stack_loop_duplicate_fires:
  assumes "hits rt prefix k1 bk i" and "hits rt prefix k2 bk i"
  shows "\<exists>msg. stack_loop rt (pre @ (k1, Some t) # mid @ (k2, v2) # post) prefix vd ttv = Inl (AssertionError msg)"
proof (cases "stack_loop rt pre prefix vd ttv")
  case (Inl e)
  then show ?thesis using stack_loop_error [OF Inl] by (auto simp: stack_loop_append)
next
  case (Inr r)
  obtain vd' ttv' where r: "r = (vd', ttv')" by (cases r)
  from assms(1) obtain g1 where m: "pattern_match rt prefix k1 = Some (g1, bk)" and i: "int_of_digits rt g1 = i"
    by (auto simp: hits_def split: option.splits)
  show ?thesis
  proof (cases "slot ttv' bk i \<noteq> None")
    case True
    with Inr r m i show ?thesis
      by (simp add: stack_loop_append stack_loop_Cons del: stack_loop.simps)
  next
    case False
    have occ: "slot (put_slot bk i (Some t) ttv') bk i \<noteq> None" by (simp add: slot_put_slot)
    have "(k2, v2) \<in> set (mid @ (k2, v2) # post)" by simp
    from stack_loop_occupied_fires [OF occ this assms(2)] False Inr r m i show ?thesis
      by (simp add: stack_loop_append stack_loop_Cons del: stack_loop.simps)
  qed
qed

lemma stack_loop_slot_persists:
  assumes "stack_loop rt items prefix vd ttv = Inr (vd', ttv')" and "slot ttv bk i = Some t"
  shows "slot ttv' bk i = Some t"
  using assms
proof (induction items arbitrary: vd ttv)
  case Nil
  then show ?case by simp
next
  case (Cons kv items)
  obtain k v where kv: "kv = (k, v)" by (cases kv)
  show ?case
  proof (cases "pattern_match rt prefix k")
    case None
    with Cons.prems kv show ?thesis
      by (auto simp add: stack_loop_Cons simp del: stack_loop.simps intro: Cons.IH)
  next
    case (Some g)
    obtain g1 bk' where g: "g = (g1, bk')" by (cases g)
    from Cons.prems(1) Some g kv have free: "slot ttv bk' (int_of_digits rt g1) = None"
      and rest: "stack_loop rt items prefix vd (put_slot bk' (int_of_digits rt g1) v ttv) = Inr (vd', ttv')"
      by (auto simp add: stack_loop_Cons simp del: stack_loop.simps split: if_splits)
    from free Cons.prems(2) have "slot (put_slot bk' (int_of_digits rt g1) v ttv) bk i = Some t"
      by (auto simp: slot_put_slot)
    from Cons.IH [OF rest this] show ?thesis .
  qed
qed

lemma stack_loop_slot_written:
  assumes "stack_loop rt items prefix vd ttv = Inr (vd', ttv')"
      and "(k, Some t) \<in> set items" and "hits rt prefix k bk i"
  shows "slot ttv' bk i = Some t"
  using assms
proof (induction items arbitrary: vd ttv)
  case Nil
  then show ?case by simp
next
  case (Cons kv items)
  obtain k0 v0 where kv: "kv = (k0, v0)" by (cases kv)
  show ?case
  proof (cases "pattern_match rt prefix k0")
    case None
    with Cons.prems kv have "(k, Some t) \<in> set items" by (auto simp: hits_def)
    with Cons.prems None kv show ?thesis
      by (auto simp add: stack_loop_Cons simp del: stack_loop.simps intro: Cons.IH)
  next
    case (Some g)
    obtain g1 bk' where g: "g = (g1, bk')" by (cases g)
    from Cons.prems(1) Some g kv have free: "slot ttv bk' (int_of_digits rt g1) = None"
      and rest: "stack_loop rt items prefix vd (put_slot bk' (int_of_digits rt g1) v0 ttv) = Inr (vd', ttv')"
      by (auto simp add: stack_loop_Cons simp del: stack_loop.simps split: if_splits)
    show ?thesis
    proof (cases "(k, Some t) \<in> set items")
      case True
      from Cons.IH [OF rest True Cons.prems(3)] show ?thesis .
    next
      case False
      with Cons.prems(2) kv have "k0 = k" "v0 = Some t" by auto
      with Cons.prems(3) Some g have "bk' = bk" "int_of_digits rt g1 = i" by (auto simp: hits_def)
      then have "slot (put_slot bk' (int_of_digits rt g1) v0 ttv) bk i = Some t"
        using \<open>v0 = Some t\<close> by (simp add: slot_put_slot)
      from stack_loop_slot_persists [OF rest this] show ?thesis .
    qed
  qed
qed

lemma stack_loop_slot_origin:
  assumes "stack_loop rt items prefix vd ttv = Inr (vd', ttv')" and "slot ttv' bk i = Some t"
  shows "slot ttv bk i = Some t \<or> (\<exists>k. (k, Some t) \<in> set items \<and> hits rt prefix k bk i)"
  using assms
proof (induction items arbitrary: vd ttv)
  case Nil
  then show ?case by simp
next
  case (Cons kv items)
  obtain k0 v0 where kv: "kv = (k0, v0)" by (cases kv)
  show ?case
  proof (cases "pattern_match rt prefix k0")
    case None
    with Cons.prems kv have "stack_loop rt items prefix (AList.update k0 v0 vd) ttv = Inr (vd', ttv')"
      by (simp add: stack_loop_Cons del: stack_loop.simps)
    from Cons.IH [OF this Cons.prems(2)] kv show ?thesis by auto
  next
    case (Some g)
    obtain g1 bk' where g: "g = (g1, bk')" by (cases g)
    from Cons.prems(1) Some g kv have
      rest: "stack_loop rt items prefix vd (put_slot bk' (int_of_digits rt g1) v0 ttv) = Inr (vd', ttv')"
      by (auto simp add: stack_loop_Cons simp del: stack_loop.simps split: if_splits)
    from Cons.IH [OF rest Cons.prems(2)] show ?thesis
    proof
      assume "slot (put_slot bk' (int_of_digits rt g1) v0 ttv) bk i = Some t"
      then show ?thesis
        using Some g kv by (auto simp: slot_put_slot hits_def split: if_splits)
    next
      assume "\<exists>k. (k, Some t) \<in> set items \<and> hits rt prefix k bk i"
      then show ?thesis using kv by auto
    qed
  qed
qed

lemma slot_SomeD:
  "slot ttv bk i = Some t \<Longrightarrow> \<exists>ts. (bk, ts) \<in> set ttv \<and> map_of ttv bk = Some ts \<and> i < length ts \<and> ts ! i = Some t"
  by (auto simp: slot_def split: option.splits if_splits dest: map_of_SomeD)

lemma slot_NoneD:
  "slot ttv bk i = None \<Longrightarrow> map_of ttv bk = Some ts \<Longrightarrow> i < length ts \<Longrightarrow> ts ! i = None"
  by (auto simp: slot_def)

lemma np_stack_gap:
  assumes "i < length ts" and "ts ! i = None" and "j < length ts" and "ts ! j = Some t" and "shape t \<noteq> []"
  shows "np_stack rt ts = Inl ValueError"
proof -
  let ?arrays = "map np_asanyarray ts"
  have i: "?arrays ! i = Tensor Object [] [None]" using assms(1,2) by simp
  have j: "?arrays ! j = t" using assms(3,4) by simp
  have "\<not> list_all (\<lambda>a. shape a = shape (hd ?arrays)) ?arrays"
  proof
    assume all: "list_all (\<lambda>a. shape a = shape (hd ?arrays)) ?arrays"
    have "shape (?arrays ! i) = shape (hd ?arrays)"
      using all assms(1) unfolding list_all_length by (metis length_map)
    moreover have "shape (?arrays ! j) = shape (hd ?arrays)"
      using all assms(3) unfolding list_all_length by (metis length_map)
    ultimately show False using i j assms(5) by simp
  qed
  then show ?thesis by (simp add: np_stack_def Let_def)
qed

lemma vectorize_loop_fails:
  assumes "(bk, ts) \<in> set groups" and "np_stack rt ts = Inl e"
  shows "\<exists>e'. vectorize_loop rt groups prefix vd = Inl e'"
  using assms
proof (induction groups arbitrary: vd)
  case Nil
  then show ?case by simp
next
  case (Cons g groups)
  obtain bk0 ts0 where g: "g = (bk0, ts0)" by (cases g)
  show ?case
  proof (cases "np_stack rt ts0")
    case (Inl e0)
    with g show ?thesis by simp
  next
    case (Inr stacked)
    with Cons.prems g have "(bk, ts) \<in> set groups" by auto
    from Cons.IH [OF this Cons.prems(2)] Inr g show ?thesis
      by (auto split: option.splits)
  qed
qed

lemma stack_gap_fails:
  assumes "(k, Some t) \<in> set sd" and "hits rt prefix k bk j" and "shape t \<noteq> []"
      and "i < j" and "index_missing rt prefix sd bk i"
  shows "\<exists>e. stack_state_dict rt sd prefix = Inl e"
proof (cases "stack_loop rt sd prefix [] []")
  case (Inl e)
  then show ?thesis by (simp add: stack_state_dict_def)
next
  case (Inr r)
  obtain vd ttv where r: "r = (vd, ttv)" by (cases r)
  have loop: "stack_loop rt sd prefix [] [] = Inr (vd, ttv)" using Inr r by simp
  from stack_loop_slot_written [OF loop assms(1,2)] have sj: "slot ttv bk j = Some t" .
  then obtain ts where ts: "(bk, ts) \<in> set ttv" "map_of ttv bk = Some ts" "j < length ts" "ts ! j = Some t"
    using slot_SomeD by blast
  have si: "slot ttv bk i = None"
  proof (cases "slot ttv bk i")
    case None
    then show ?thesis .
  next
    case (Some t')
    from stack_loop_slot_origin [OF loop Some] obtain k' where "(k', Some t') \<in> set sd" "hits rt prefix k' bk i"
      by (auto simp: slot_def)
    with assms(5) show ?thesis by (auto simp: index_missing_def list_all_iff)
  qed
  have "ts ! i = None" using slot_NoneD [OF si ts(2)] assms(4) ts(3) by simp
  then have "np_stack rt ts = Inl ValueError"
    using np_stack_gap [of i ts j t] assms(3,4) ts(3,4) by simp
  from vectorize_loop_fails [OF ts(1) this] loop show ?thesis
    by (simp add: stack_state_dict_def)
qed

text \<open>
  Claim C5, as the source has it. Two keys that hit the same slot make
  \<^verbatim>\<open>stack_state_dict\<close> fail with the duplicate-key assertion when the earlier one
  holds a value other than \<^verbatim>\<open>None\<close> (the slot is then occupied when the later
  key arrives). The source has no check for gaps: a missing index leaves
  \<^verbatim>\<open>None\<close> in the list, and the call fails (with the assertion, or with the
  shape error of \<^verbatim>\<open>numpy.stack\<close>) when a key above the gap holds an array of at
  least one dimension.
\<close>

theorem stack_duplicate_or_gap_fails:
  "(hits rt prefix k1 bk i \<and> hits rt prefix k2 bk i \<longrightarrow>
      (\<exists>msg. stack_state_dict rt (pre @ (k1, Some t) # mid @ (k2, v2) # post) prefix = Inl (AssertionError msg)))
   \<and> ((k, Some t') \<in> set sd \<and> hits rt prefix k bk' j \<and> shape t' \<noteq> [] \<and> i' < j
        \<and> index_missing rt prefix sd bk' i' \<longrightarrow>
      (\<exists>e. stack_state_dict rt sd prefix = Inl e))"
proof (intro conjI impI)
  assume "hits rt prefix k1 bk i \<and> hits rt prefix k2 bk i"
  then obtain msg where
    "stack_loop rt (pre @ (k1, Some t) # mid @ (k2, v2) # post) prefix [] [] = Inl (AssertionError msg)"
    using stack_loop_duplicate_fires by blast
  then show "\<exists>msg. stack_state_dict rt (pre @ (k1, Some t) # mid @ (k2, v2) # post) prefix = Inl (AssertionError msg)"
    by (simp add: stack_state_dict_def)
next
  assume "(k, Some t') \<in> set sd \<and> hits rt prefix k bk' j \<and> shape t' \<noteq> [] \<and> i' < j
        \<and> index_missing rt prefix sd bk' i'"
  then show "\<exists>e. stack_state_dict rt sd prefix = Inl e"
    using stack_gap_fails by blast
qed

theorem stack_duplicate_or_gap_fails_witness:
  "(\<exists>msg. stack_state_dict example_runtime
        [(py ''blocks.0.w'', Some (Tensor (Numeric ''int64'') [1] [Some 1])),
         (py ''blocks.00.w'', Some (Tensor (Numeric ''int64'') [1] [Some 2]))] (Some (py ''blocks'')) = Inl (AssertionError msg))
   \<and> (\<exists>e. stack_state_dict example_runtime
        [(py ''blocks.0.w'', Some (Tensor (Numeric ''int64'') [1] [Some 1])),
         (py ''blocks.1.w'', Some (Tensor (Numeric ''int64'') [1] [Some 2])),
         (py ''blocks.3.w'', Some (Tensor (Numeric ''int64'') [1] [Some 3]))] (Some (py ''blocks'')) = Inl e)"
  using stack_duplicate_or_gap_fails
          [where rt = example_runtime and prefix = "Some (py ''blocks'')" and ?k1.0 = "py ''blocks.0.w''"
             and bk = "py ''w''" and i = 0 and ?k2.0 = "py ''blocks.00.w''" and pre = "[]"
             and t = "Tensor (Numeric ''int64'') [1] [Some 1]" and mid = "[]"
             and ?v2.0 = "Some (Tensor (Numeric ''int64'') [1] [Some 2])" and post = "[]"
             and k = "py ''blocks.3.w''" and t' = "Tensor (Numeric ''int64'') [1] [Some 3]"
             and sd = "[(py ''blocks.0.w'', Some (Tensor (Numeric ''int64'') [1] [Some 1])),
                (py ''blocks.1.w'', Some (Tensor (Numeric ''int64'') [1] [Some 2])),
                (py ''blocks.3.w'', Some (Tensor (Numeric ''int64'') [1] [Some 3]))]"
             and bk' = "py ''w''" and j = 3 and i' = 2]
  by (simp add: hits_def index_missing_def pattern_match_def startswith_def escaped_def
        is_digit_def digit_value_def int_of_digits_def newline_def py_def)

text \<open>
  The claim as worded fails twice. A duplicate index goes unnoticed when the earlier
  key holds \<^verbatim>\<open>None\<close>: the slot still reads \<^verbatim>\<open>None\<close> and the later value
  replaces it. A gap goes unnoticed when the arrays are 0-dimensional:
  \<^verbatim>\<open>numpy.stack\<close> takes the \<^verbatim>\<open>None\<close> of the missing index for one more
  0-dimensional array and returns an array of objects.
\<close>

theorem stack_duplicate_or_gap_counterexample:
  "stack_state_dict example_runtime
      [(py ''blocks.0.w'', None),
       (py ''blocks.00.w'', Some (Tensor (Numeric ''int64'') [1] [Some 2]))] (Some (py ''blocks''))
     = Inr [(py ''blocks.w'', Some (Tensor (Numeric ''int64'') [1, 1] [Some 2]))]
   \<and> stack_state_dict example_runtime
      [(py ''blocks.0.w'', Some (Tensor (Numeric ''int64'') [] [Some 1])),
       (py ''blocks.1.w'', Some (Tensor (Numeric ''int64'') [] [Some 2])),
       (py ''blocks.3.w'', Some (Tensor (Numeric ''int64'') [] [Some 3]))] (Some (py ''blocks''))
     = Inr [(py ''blocks.w'', Some (Tensor Object [4] [Some 1, Some 2, None, Some 3]))]"
  by (simp add: stack_state_dict_def pattern_match_def startswith_def escaped_def is_digit_def
        digit_value_def int_of_digits_def newline_def np_stack_def py_def)

subsection \<open>Keys written by unstack\<close>

lemma takeWhile_str_nat: "takeWhile (is_digit rt) (str_nat i @ py ''.'' @ r) = str_nat i"
  using str_nat_digits [of rt i] by (simp add: list_all_iff not_is_digit_dot py_dot)

lemma dropWhile_str_nat: "dropWhile (is_digit rt) (str_nat i @ py ''.'' @ r) = py ''.'' @ r"
  using str_nat_digits [of rt i] by (simp add: list_all_iff not_is_digit_dot py_dot)

lemma generated_key_inj:
  assumes "p @ str_nat i @ py ''.'' @ r = p @ str_nat j @ py ''.'' @ r'"
  shows "i = j \<and> r = r'"
proof -
  from assms have eq: "str_nat i @ py ''.'' @ r = str_nat j @ py ''.'' @ r'" by simp
  then have "takeWhile (is_digit rt) (str_nat i @ py ''.'' @ r) = takeWhile (is_digit rt) (str_nat j @ py ''.'' @ r')"
    by simp
  then have "str_nat i = str_nat j" by (simp only: takeWhile_str_nat)
  then have "int_of_digits rt (str_nat i) = int_of_digits rt (str_nat j)" by simp
  then have "i = j" by (simp only: int_of_digits_str_nat)
  with eq show ?thesis by simp
qed

lemma startswith_append: "startswith (p @ r) p"
  by (simp add: startswith_def)

lemma startswithD: "startswith k p \<Longrightarrow> k = p @ drop (length p) k"
  by (metis append_take_drop_id startswith_def)

lemma pattern_match_generated:
  assumes "newline \<notin> set r"
  shows "pattern_match rt (Some p) ((p @ py ''.'') @ str_nat i @ py ''.'' @ r) = Some (str_nat i, r)"
  using pattern_match_intro [OF str_nat_digits [of rt i] str_nat_nonempty [of i] assms, of "Some p"]
  by (simp add: escaped_def)

lemma pattern_match_startswith:
  "pattern_match rt (Some p) k = Some g \<Longrightarrow> startswith k (p @ py ''.'')"
  by (auto simp: pattern_match_def escaped_def Let_def split: if_splits)

subsection \<open>Rows written by the inner loop of unstack\<close>

lemma unstack_rows_other:
  assumes "\<And>j. j < length rows \<Longrightarrow> k' \<noteq> p @ str_nat (i + j) @ py ''.'' @ rest"
  shows "map_of (unstack_rows p rest rows i new) k' = map_of new k'"
  using assms
proof (induction rows arbitrary: i new)
  case Nil
  then show ?case by simp
next
  case (Cons r rows)
  have "map_of (unstack_rows p rest rows (Suc i) (AList.update (p @ str_nat i @ py ''.'' @ rest) r new)) k'
        = map_of (AList.update (p @ str_nat i @ py ''.'' @ rest) r new) k'"
  proof (rule Cons.IH)
    fix j assume "j < length rows"
    then show "k' \<noteq> p @ str_nat (Suc i + j) @ py ''.'' @ rest"
      using Cons.prems [of "Suc j"] by simp
  qed
  moreover have "k' \<noteq> p @ str_nat i @ py ''.'' @ rest" using Cons.prems [of 0] by simp
  ultimately show ?case by (simp add: update_conv')
qed

lemma unstack_rows_written:
  assumes "j < length rows"
  shows "map_of (unstack_rows p rest rows i new) (p @ str_nat (i + j) @ py ''.'' @ rest) = Some (rows ! j)"
  using assms
proof (induction rows arbitrary: i j new)
  case Nil
  then show ?case by simp
next
  case (Cons r rows)
  show ?case
  proof (cases j)
    case 0
    have "map_of (unstack_rows p rest rows (Suc i) (AList.update (p @ str_nat i @ py ''.'' @ rest) r new))
            (p @ str_nat i @ py ''.'' @ rest)
          = map_of (AList.update (p @ str_nat i @ py ''.'' @ rest) r new) (p @ str_nat i @ py ''.'' @ rest)"
    proof (rule unstack_rows_other)
      fix j' assume "j' < length rows"
      show "p @ str_nat i @ py ''.'' @ rest \<noteq> p @ str_nat (Suc i + j') @ py ''.'' @ rest"
        using generated_key_inj [of p i rest "Suc i + j'" rest] by auto
    qed
    with 0 show ?thesis by (simp add: update_conv')
  next
    case (Suc j')
    with Cons.prems have "j' < length rows" by simp
    from Cons.IH [OF this, of "Suc i"] Suc show ?thesis by simp
  qed
qed

lemma unstack_rows_distinct:
  "distinct (map fst new) \<Longrightarrow> distinct (map fst (unstack_rows p rest rows i new))"
  by (induction rows arbitrary: i new) (simp_all add: distinct_update)

lemma iter_rows_Cons:
  "shape t = n # s \<Longrightarrow> iter_rows rt t = Inr (map (row rt t) [0..<n])"
  by (simp add: iter_rows_def)

subsection \<open>The outer loop of unstack\<close>

lemma rows_ok_Cons: "rows_ok p (kv # L) \<Longrightarrow> rows_ok p L"
  by (simp add: rows_ok_def)

lemma unstack_loop_success: "rows_ok p L \<Longrightarrow> \<exists>U. unstack_loop rt L p new = Inr U"
proof (induction L arbitrary: new)
  case Nil
  then show ?case by simp
next
  case (Cons kv L)
  obtain k0 v0 where kv: "kv = (k0, v0)" by (cases kv)
  have ok: "rows_ok p L" using Cons.prems by (rule rows_ok_Cons)
  show ?case
  proof (cases "startswith k0 p")
    case True
    with Cons.prems kv obtain t n s where t: "v0 = Some t" "shape t = n # s"
      by (auto simp: rows_ok_def neq_Nil_conv)
    with True kv Cons.IH [OF ok] show ?thesis by (simp add: iter_rows_Cons)
  next
    case False
    with kv Cons.IH [OF ok] show ?thesis by (cases v0) simp_all
  qed
qed

lemma unstack_loop_step [consumes 1, case_names unstacked passed]:
  assumes "unstack_loop rt ((k0, v0) # L) p new = Inr U"
  obtains t n s where "v0 = Some t" and "startswith k0 p" and "shape t = n # s"
      and "unstack_loop rt L p (unstack_rows p (drop (length p) k0) (map (row rt t) [0..<n]) 0 new) = Inr U"
    | "v0 = None \<or> \<not> startswith k0 p" and "unstack_loop rt L p (AList.update k0 v0 new) = Inr U"
proof (cases v0)
  case None
  with assms that(2) show ?thesis by simp
next
  case (Some t)
  show ?thesis
  proof (cases "startswith k0 p")
    case False
    with assms Some that(2) show ?thesis by simp
  next
    case True
    show ?thesis
    proof (cases "shape t")
      case Nil
      with assms Some True show ?thesis by (simp add: iter_rows_def)
    next
      case (Cons n s)
      with assms Some True that(1) show ?thesis by (simp add: iter_rows_Cons)
    qed
  qed
qed

lemma unstack_loop_distinct:
  "unstack_loop rt L p new = Inr U \<Longrightarrow> distinct (map fst new) \<Longrightarrow> distinct (map fst U)"
proof (induction L arbitrary: new)
  case Nil
  then show ?case by simp
next
  case (Cons kv L)
  obtain k0 v0 where kv: "kv = (k0, v0)" by (cases kv)
  from Cons.prems(1) [unfolded kv] show ?case
    by (cases rule: unstack_loop_step)
       (use Cons.IH Cons.prems(2) in \<open>auto simp: unstack_rows_distinct distinct_update\<close>)
qed

lemma unstack_loop_passthrough:
  assumes "unstack_loop rt L p new = Inr U" and "distinct (map fst L)" and "\<not> startswith k p"
  shows "map_of U k = (if k \<in> fst ` set L then map_of L k else map_of new k)"
  using assms(1,2)
proof (induction L arbitrary: new)
  case Nil
  then show ?case by simp
next
  case (Cons kv L)
  obtain k0 v0 where kv: "kv = (k0, v0)" by (cases kv)
  have d: "distinct (map fst L)" and k0: "k0 \<notin> fst ` set L" using Cons.prems(2) kv by auto
  from Cons.prems(1) [unfolded kv] show ?case
  proof (cases rule: unstack_loop_step)
    case (unstacked t n s)
    note sw = unstacked(2) and loop = unstacked(4)
    have ne: "k \<noteq> k0" using sw assms(3) by auto
    have "map_of (unstack_rows p (drop (length p) k0) (map (row rt t) [0..<n]) 0 new) k = map_of new k"
    proof (rule unstack_rows_other)
      fix j
      show "k \<noteq> p @ str_nat (0 + j) @ py ''.'' @ drop (length p) k0"
        using assms(3) startswith_append by auto
    qed
    with Cons.IH [OF loop d] ne kv show ?thesis by auto
  next
    case passed
    from Cons.IH [OF passed(2) d] k0 kv show ?thesis by (auto simp: update_conv')
  qed
qed

lemma generated_Cons:
  assumes "k0 \<notin> fst ` set L"
  shows "generated p L k' \<Longrightarrow> generated p ((k0, v0) # L) k'"
  unfolding generated_def
proof (elim exE conjE)
  fix rest t i
  assume k': "k' = p @ str_nat i @ py ''.'' @ rest" and m: "map_of L (p @ rest) = Some (Some t)"
    and i: "i < leading t"
  from m have "p @ rest \<in> fst ` set L" by (metis domI dom_map_of_conv_image_fst)
  with assms have "p @ rest \<noteq> k0" by auto
  with k' m i show "\<exists>rest t i. k' = p @ str_nat i @ py ''.'' @ rest
      \<and> map_of ((k0, v0) # L) (p @ rest) = Some (Some t) \<and> i < leading t"
    by auto
qed

lemma unstack_loop_untouched:
  assumes "unstack_loop rt L p new = Inr U" and "distinct (map fst L)" and "rows_ok p L"
      and "startswith k' p" and "\<not> generated p L k'"
  shows "map_of U k' = map_of new k'"
  using assms(1,2,3,5)
proof (induction L arbitrary: new)
  case Nil
  then show ?case by simp
next
  case (Cons kv L)
  obtain k0 v0 where kv: "kv = (k0, v0)" by (cases kv)
  have d: "distinct (map fst L)" and k0: "k0 \<notin> fst ` set L" using Cons.prems(2) kv by auto
  have ok: "rows_ok p L" using Cons.prems(3) by (rule rows_ok_Cons)
  have ng: "\<not> generated p L k'" using Cons.prems(4) generated_Cons [OF k0] kv by blast
  from Cons.prems(1) [unfolded kv] show ?case
  proof (cases rule: unstack_loop_step)
    case (unstacked t n s)
    note v0 = unstacked(1) and sw = unstacked(2) and sh = unstacked(3) and loop = unstacked(4)
    have k0eq: "p @ drop (length p) k0 = k0" using startswithD [OF sw] by simp
    have "map_of (unstack_rows p (drop (length p) k0) (map (row rt t) [0..<n]) 0 new) k' = map_of new k'"
    proof (rule unstack_rows_other)
      fix j assume "j < length (map (row rt t) [0..<n])"
      then have j: "j < n" by simp
      show "k' \<noteq> p @ str_nat (0 + j) @ py ''.'' @ drop (length p) k0"
      proof
        assume "k' = p @ str_nat (0 + j) @ py ''.'' @ drop (length p) k0"
        then have "generated p ((k0, v0) # L) k'"
          unfolding generated_def using k0eq v0 sh j
          by (intro exI [of _ "drop (length p) k0"] exI [of _ t] exI [of _ j]) (simp add: leading_def)
        with Cons.prems(4) kv show False by simp
      qed
    qed
    with Cons.IH [OF loop d ok ng] show ?thesis by simp
  next
    case passed
    then have "\<not> startswith k0 p" using Cons.prems(3) kv by (auto simp: rows_ok_def)
    then have "k' \<noteq> k0" using assms(4) by auto
    with Cons.IH [OF passed(2) d ok ng] show ?thesis by (simp add: update_conv')
  qed
qed

lemma unstack_loop_rows:
  assumes "unstack_loop rt L p new = Inr U" and "distinct (map fst L)" and "rows_ok p L"
      and "map_of L (p @ rest) = Some (Some t)" and "i < leading t"
  shows "map_of U (p @ str_nat i @ py ''.'' @ rest) = Some (row rt t i)"
  using assms(1,2,3,4)
proof (induction L arbitrary: new)
  case Nil
  then show ?case by simp
next
  case (Cons kv L)
  obtain k0 v0 where kv: "kv = (k0, v0)" by (cases kv)
  have d: "distinct (map fst L)" and k0: "k0 \<notin> fst ` set L" using Cons.prems(2) kv by auto
  have ok: "rows_ok p L" using Cons.prems(3) by (rule rows_ok_Cons)
  show ?case
  proof (cases "k0 = p @ rest")
    case False
    with Cons.prems(4) kv have m: "map_of L (p @ rest) = Some (Some t)" by simp
    from Cons.prems(1) [unfolded kv] show ?thesis
      by (cases rule: unstack_loop_step) (use Cons.IH [OF _ d ok m] in blast)+
  next
    case True
    with Cons.prems(4) kv have v0: "v0 = Some t" by simp
    have sw: "startswith k0 p" using True by (simp add: startswith_append)
    from assms(5) obtain n s where sh: "shape t = n # s" and i: "i < n"
      by (cases "shape t") (auto simp: leading_def)
    have rest: "drop (length p) k0 = rest" using True by simp
    from Cons.prems(1) kv v0 sw sh rest
    have loop: "unstack_loop rt L p (unstack_rows p rest (map (row rt t) [0..<n]) 0 new) = Inr U"
      by (simp add: iter_rows_Cons)
    have ng: "\<not> generated p L (p @ str_nat i @ py ''.'' @ rest)"
    proof
      assume "generated p L (p @ str_nat i @ py ''.'' @ rest)"
      then obtain rest' t' i' where e: "p @ str_nat i @ py ''.'' @ rest = p @ str_nat i' @ py ''.'' @ rest'"
        and m: "map_of L (p @ rest') = Some (Some t')"
        unfolding generated_def by blast
      from generated_key_inj [OF e] have "rest' = rest" by simp
      with m have "p @ rest \<in> fst ` set L" by (metis domI dom_map_of_conv_image_fst)
      with k0 True show False by simp
    qed
    have "map_of U (p @ str_nat i @ py ''.'' @ rest)
          = map_of (unstack_rows p rest (map (row rt t) [0..<n]) 0 new) (p @ str_nat i @ py ''.'' @ rest)"
      by (rule unstack_loop_untouched [OF loop d ok _ ng]) (simp add: startswith_append)
    also have "\<dots> = Some (map (row rt t) [0..<n] ! i)"
      using unstack_rows_written [of i "map (row rt t) [0..<n]" p rest 0 new] i by simp
    finally show ?thesis using i by simp
  qed
qed

subsection \<open>What the first loop of stack leaves in the two dicts\<close>

lemma stack_loop_step [consumes 1, case_names matched unmatched]:
  assumes "stack_loop rt ((k, v) # items) prefix vd ttv = Inr (vd', ttv')"
  obtains g1 bk where "pattern_match rt prefix k = Some (g1, bk)" and "slot ttv bk (int_of_digits rt g1) = None"
      and "stack_loop rt items prefix vd (put_slot bk (int_of_digits rt g1) v ttv) = Inr (vd', ttv')"
    | "pattern_match rt prefix k = None" and "stack_loop rt items prefix (AList.update k v vd) ttv = Inr (vd', ttv')"
  using assms unfolding stack_loop_Cons
  by (auto split: option.splits if_splits)

lemma stack_loop_unmatched:
  assumes "stack_loop rt items prefix vd ttv = Inr (vd', ttv')" and "distinct (map fst items)"
  shows "map_of vd' k = (if pattern_match rt prefix k = None \<and> k \<in> fst ` set items then map_of items k
                         else map_of vd k)"
  using assms
proof (induction items arbitrary: vd ttv)
  case Nil
  then show ?case by simp
next
  case (Cons kv items)
  obtain k0 v0 where kv: "kv = (k0, v0)" by (cases kv)
  have d: "distinct (map fst items)" and k0: "k0 \<notin> fst ` set items" using Cons.prems(2) kv by auto
  from Cons.prems(1) [unfolded kv] show ?case
  proof (cases rule: stack_loop_step)
    case (matched g1 bk)
    from Cons.IH [OF matched(3) d] matched(1) kv show ?thesis by auto
  next
    case unmatched
    from Cons.IH [OF unmatched(2) d] unmatched(1) k0 kv show ?thesis
      by (auto simp: update_conv')
  qed
qed

lemma map_of_put_slot_other: "bk' \<noteq> bk \<Longrightarrow> map_of (put_slot bk i v ttv) bk' = map_of ttv bk'"
  by (simp add: put_slot_def Let_def update_conv')

lemma map_of_put_slot_same:
  "\<exists>ts'. map_of (put_slot bk i v ttv) bk = Some ts'
      \<and> length ts' = max (case map_of ttv bk of None \<Rightarrow> 0 | Some ts \<Rightarrow> length ts) (Suc i)"
  by (auto simp: put_slot_def Let_def update_conv' split: option.splits)

lemma stack_loop_last_index:
  assumes "stack_loop rt items prefix vd ttv = Inr (vd', ttv')" and "map_of ttv' bk = Some ts'"
  shows "(\<exists>ts. map_of ttv bk = Some ts \<and> length ts = length ts')
         \<or> (ts' \<noteq> [] \<and> (\<exists>k v. (k, v) \<in> set items \<and> hits rt prefix k bk (length ts' - 1)))"
  using assms
proof (induction items arbitrary: vd ttv)
  case Nil
  then show ?case by simp
next
  case (Cons kv items)
  obtain k0 v0 where kv: "kv = (k0, v0)" by (cases kv)
  from Cons.prems(1) [unfolded kv] show ?case
  proof (cases rule: stack_loop_step)
    case unmatched
    from Cons.IH [OF unmatched(2) Cons.prems(2)] show ?thesis by auto
  next
    case (matched g1 bk0)
    let ?i = "int_of_digits rt g1"
    from Cons.IH [OF matched(3) Cons.prems(2)] show ?thesis
    proof
      assume "ts' \<noteq> [] \<and> (\<exists>k v. (k, v) \<in> set items \<and> hits rt prefix k bk (length ts' - 1))"
      then show ?thesis by auto
    next
      assume "\<exists>ts. map_of (put_slot bk0 ?i v0 ttv) bk = Some ts \<and> length ts = length ts'"
      then obtain ts1 where ts1: "map_of (put_slot bk0 ?i v0 ttv) bk = Some ts1" "length ts1 = length ts'"
        by blast
      show ?thesis
      proof (cases "bk = bk0")
        case False
        with ts1 show ?thesis by (simp add: map_of_put_slot_other)
      next
        case True
        from map_of_put_slot_same [of bk0 ?i v0 ttv] ts1 True
        have len: "length ts' = max (case map_of ttv bk0 of None \<Rightarrow> 0 | Some ts \<Rightarrow> length ts) (Suc ?i)"
          by auto
        show ?thesis
        proof (cases "length ts' = Suc ?i")
          case True
          have "hits rt prefix k0 bk0 ?i" using matched(1) by (simp add: hits_def)
          with True \<open>bk = bk0\<close> kv show ?thesis by (intro disjI2) auto
        next
          case False
          with len \<open>bk = bk0\<close> show ?thesis by (auto split: option.splits simp: max_def)
        qed
      qed
    qed
  qed
qed

lemma put_slot_distinct: "distinct (map fst ttv) \<Longrightarrow> distinct (map fst (put_slot bk i v ttv))"
  by (simp add: put_slot_def Let_def distinct_update)

lemma stack_loop_distinct:
  assumes "stack_loop rt items prefix vd ttv = Inr (vd', ttv')" and "distinct (map fst ttv)"
  shows "distinct (map fst ttv')"
  using assms
proof (induction items arbitrary: vd ttv)
  case Nil
  then show ?case by simp
next
  case (Cons kv items)
  obtain k0 v0 where kv: "kv = (k0, v0)" by (cases kv)
  from Cons.prems(1) [unfolded kv] show ?case
    by (cases rule: stack_loop_step) (use Cons.IH Cons.prems(2) in \<open>auto simp: put_slot_distinct\<close>)
qed

subsection \<open>The second loop of stack\<close>

lemma vectorize_loop_success:
  assumes "\<And>bk ts. (bk, ts) \<in> set groups \<Longrightarrow> \<exists>T. np_stack rt ts = Inr T"
  shows "\<exists>out. vectorize_loop rt groups (Some p) vd = Inr out"
  using assms
proof (induction groups arbitrary: vd)
  case Nil
  then show ?case by simp
next
  case (Cons g groups)
  obtain bk ts where g: "g = (bk, ts)" by (cases g)
  from Cons.prems [of bk ts] g obtain T where T: "np_stack rt ts = Inr T" by auto
  have "\<exists>out. vectorize_loop rt groups (Some p) (AList.update (p @ py ''.'' @ bk) (Some T) vd) = Inr out"
    by (rule Cons.IH) (use Cons.prems in auto)
  with g T show ?case by simp
qed

lemma vectorize_loop_step [consumes 1, case_names step]:
  assumes "vectorize_loop rt ((bk, ts) # groups) (Some p) vd = Inr out"
  obtains T where "np_stack rt ts = Inr T"
      and "vectorize_loop rt groups (Some p) (AList.update (p @ py ''.'' @ bk) (Some T) vd) = Inr out"
  using assms by (auto split: sum.splits)

lemma vectorize_loop_other:
  assumes "vectorize_loop rt groups (Some p) vd = Inr out"
      and "\<And>bk. bk \<in> fst ` set groups \<Longrightarrow> k' \<noteq> p @ py ''.'' @ bk"
  shows "map_of out k' = map_of vd k'"
  using assms
proof (induction groups arbitrary: vd)
  case Nil
  then show ?case by simp
next
  case (Cons g groups)
  obtain bk ts where g: "g = (bk, ts)" by (cases g)
  from Cons.prems(1) [unfolded g] show ?case
  proof (cases rule: vectorize_loop_step)
    case (step T)
    have "map_of out k' = map_of (AList.update (p @ py ''.'' @ bk) (Some T) vd) k'"
      by (rule Cons.IH [OF step(2)]) (use Cons.prems(2) in auto)
    moreover have "k' \<noteq> p @ py ''.'' @ bk" using Cons.prems(2) [of bk] g by simp
    ultimately show ?thesis by (simp add: update_conv')
  qed
qed

lemma vectorize_loop_stacked:
  assumes "vectorize_loop rt groups (Some p) vd = Inr out" and "distinct (map fst groups)"
      and "(bk, ts) \<in> set groups" and "np_stack rt ts = Inr T"
  shows "map_of out (p @ py ''.'' @ bk) = Some (Some T)"
  using assms(1,2,3)
proof (induction groups arbitrary: vd)
  case Nil
  then show ?case by simp
next
  case (Cons g groups)
  obtain bk0 ts0 where g: "g = (bk0, ts0)" by (cases g)
  have d: "distinct (map fst groups)" and bk0: "bk0 \<notin> fst ` set groups" using Cons.prems(2) g by auto
  from Cons.prems(1) [unfolded g] show ?case
  proof (cases rule: vectorize_loop_step)
    case (step T0)
    show ?thesis
    proof (cases "(bk, ts) \<in> set groups")
      case True
      from Cons.IH [OF step(2) d True] show ?thesis .
    next
      case False
      with Cons.prems(3) g have e: "bk0 = bk" "ts0 = ts" by auto
      have "map_of out (p @ py ''.'' @ bk) = map_of (AList.update (p @ py ''.'' @ bk0) (Some T0) vd) (p @ py ''.'' @ bk)"
        by (rule vectorize_loop_other [OF step(2)]) (use bk0 e in auto)
      with e step(1) assms(4) show ?thesis by (simp add: update_conv')
    qed
  qed
qed

subsection \<open>Rows and stacks\<close>

lemma concat_chunks:
  "length es = n * k \<Longrightarrow> concat (map (\<lambda>i. take k (drop (i * k) es)) [0..<n]) = es"
proof (induction n arbitrary: es)
  case 0
  then show ?case by simp
next
  case (Suc n)
  have len: "length (drop k es) = n * k" using Suc.prems by simp
  have "map (\<lambda>i. take k (drop (i * k) es)) [0..<Suc n]
        = take k es # map (\<lambda>i. take k (drop (i * k) (drop k es))) [0..<n]"
    by (simp add: upt_conv_Cons map_Suc_upt [symmetric] add.commute del: upt_Suc)
  then have "concat (map (\<lambda>i. take k (drop (i * k) es)) [0..<Suc n])
        = take k es @ concat (map (\<lambda>i. take k (drop (i * k) (drop k es))) [0..<n])"
    by simp
  also have "\<dots> = take k es @ drop k es" using Suc.IH [OF len] by simp
  finally show ?case by simp
qed

lemma nth_chunk:
  "\<forall>x \<in> set xss. length x = k \<Longrightarrow> i < length xss \<Longrightarrow> take k (drop (i * k) (concat xss)) = xss ! i"
proof (induction xss arbitrary: i)
  case Nil
  then show ?case by simp
next
  case (Cons x xss)
  show ?case
  proof (cases i)
    case 0
    with Cons.prems show ?thesis by simp
  next
    case (Suc j)
    with Cons.prems have "take k (drop (j * k) (concat xss)) = xss ! j" by (intro Cons.IH) auto
    with Suc Cons.prems show ?thesis by simp
  qed
qed

lemma as_object_numeric: "dt \<noteq> Object \<Longrightarrow> as_object rt (Tensor dt s es) = Some (Tensor dt s es)"
  by (simp add: as_object_def)

lemma row_numeric:
  assumes "numeric t" and "shape t = n # s"
  shows "row rt t i = Some (Tensor (dtype t) s (take (prod_list s) (drop (i * prod_list s) (entries t))))"
  using assms by (simp add: row_def as_object_numeric numeric_def)

lemma np_stack_same_shape:
  assumes "tens \<noteq> []" and "\<forall>t \<in> set tens. shape t = s \<and> dtype t = d"
  shows "np_stack rt (map Some tens) = Inr (Tensor d (length tens # s) (concat (map entries tens)))"
proof -
  have arrays: "map np_asanyarray (map Some tens) = tens" by (simp add: comp_def map_idI)
  have hd: "shape (hd tens) = s" "dtype (hd tens) = d" using assms by (cases tens; auto)+
  have all: "list_all (\<lambda>a. shape a = s) tens" "list_all (\<lambda>a. dtype a = d) tens"
    using assms(2) by (simp_all add: list_all_iff)
  show ?thesis
    unfolding np_stack_def arrays Let_def using assms(1) hd all by simp
qed

lemma np_stack_rows:
  assumes "wf_tensor t" and "numeric t" and "shape t = n # s" and "0 < n"
  shows "np_stack rt (map (row rt t) [0..<n]) = Inr t"
proof -
  let ?k = "prod_list s"
  let ?chunk = "\<lambda>i. take ?k (drop (i * ?k) (entries t))"
  let ?tens = "map (\<lambda>i. Tensor (dtype t) s (?chunk i)) [0..<n]"
  have rows: "map (row rt t) [0..<n] = map Some ?tens"
    using row_numeric [OF assms(2,3)] by simp
  have len: "length (entries t) = n * ?k" using assms(1,3) by (simp add: wf_tensor_def)
  have ne: "?tens \<noteq> []" using assms(4) by simp
  have all: "\<forall>a \<in> set ?tens. shape a = s \<and> dtype a = dtype t" by auto
  have ent: "concat (map entries ?tens) = entries t"
    using concat_chunks [OF len] by (simp add: comp_def)
  have "np_stack rt (map (row rt t) [0..<n]) = Inr (Tensor (dtype t) (length ?tens # s) (concat (map entries ?tens)))"
    unfolding rows by (rule np_stack_same_shape [OF ne all])
  also have "\<dots> = Inr (Tensor (dtype t) (n # s) (entries t))" using ent by simp
  also have "Tensor (dtype t) (n # s) (entries t) = t" using assms(3) by (cases t) simp
  finally show ?thesis .
qed

lemma row_stacked:
  assumes "\<forall>t \<in> set tens. shape t = s \<and> dtype t = d \<and> wf_tensor t \<and> numeric t" and "i < length tens"
  shows "row rt (Tensor d (length tens # s) (concat (map entries tens))) i = Some (tens ! i)"
proof -
  let ?T = "Tensor d (length tens # s) (concat (map entries tens))"
  have ti: "tens ! i \<in> set tens" using assms(2) by simp
  with assms(1) have d: "d \<noteq> Object" by (auto simp: numeric_def)
  have num: "numeric ?T" using assms(1) d by (auto simp: numeric_def)
  have lens: "\<forall>x \<in> set (map entries tens). length x = prod_list s"
    using assms(1) by (auto simp: wf_tensor_def)
  have "take (prod_list s) (drop (i * prod_list s) (concat (map entries tens))) = map entries tens ! i"
    by (rule nth_chunk [OF lens]) (use assms(2) in simp)
  also have "\<dots> = entries (tens ! i)" using assms(2) by simp
  finally have "row rt ?T i = Some (Tensor d s (entries (tens ! i)))"
    using row_numeric [OF num, of "length tens" s rt i] by simp
  moreover have "shape (tens ! i) = s" "dtype (tens ! i) = d" using assms(1) ti by auto
  then have "Tensor d s (entries (tens ! i)) = tens ! i" by (cases "tens ! i") simp
  ultimately show ?thesis by simp
qed

subsection \<open>Unstack, then stack\<close>

lemma stacked_ok_entry:
  assumes "stacked_ok p sd" and "(k, v) \<in> set sd" and "startswith k (p @ py ''.'')"
  shows "\<exists>t. v = Some t \<and> wf_tensor t \<and> numeric t \<and> 0 < leading t
            \<and> newline \<notin> set (drop (length (p @ py ''.'')) k)"
proof -
  from assms(1,2) have "\<not> startswith k (p @ py ''.'') \<or>
          (newline \<notin> set (drop (length (p @ py ''.'')) k) \<and>
           (case v of None \<Rightarrow> False | Some t \<Rightarrow> wf_tensor t \<and> numeric t \<and> 0 < leading t))"
    unfolding stacked_ok_def list_all_iff by blast
  with assms(3) show ?thesis by (cases v) auto
qed

lemma stacked_okD:
  assumes "stacked_ok p sd" and "map_of sd ((p @ py ''.'') @ rest) = Some v"
  shows "\<exists>t. v = Some t \<and> wf_tensor t \<and> numeric t \<and> 0 < leading t \<and> newline \<notin> set rest"
proof -
  from assms(2) have "((p @ py ''.'') @ rest, v) \<in> set sd" by (rule map_of_SomeD)
  from stacked_ok_entry [OF assms(1) this startswith_append] show ?thesis by simp
qed

lemma stacked_ok_rows_ok: "stacked_ok p sd \<Longrightarrow> rows_ok (p @ py ''.'') sd"
  unfolding rows_ok_def
proof (intro ballI, clarify)
  fix k v
  assume "stacked_ok p sd" and "(k, v) \<in> set sd" and "startswith k (p @ py ''.'')"
  from stacked_ok_entry [OF this] obtain t where "v = Some t" "0 < leading t" by blast
  then show "\<exists>t. v = Some t \<and> shape t \<noteq> []" by (auto simp: leading_def)
qed

lemma leading_shape: "0 < leading t \<Longrightarrow> \<exists>s. shape t = leading t # s"
  by (cases "shape t") (auto simp: leading_def)

lemma map_of_is_key: "map_of xs k = Some v \<Longrightarrow> k \<in> fst ` set xs"
  by (metis domI dom_map_of_conv_image_fst)

lemma map_of_not_key: "k \<notin> fst ` set xs \<Longrightarrow> map_of xs k = None"
  by (metis domIff dom_map_of_conv_image_fst)

lemma in_set_map_of: "distinct (map fst xs) \<Longrightarrow> (k, v) \<in> set xs \<Longrightarrow> map_of xs k = Some v"
  by simp

text \<open>What the unstacked dict holds, for a stacked dict that is in order.\<close>

lemma unstacked_generated:
  assumes ok: "stacked_ok p sd" and loop: "unstack_loop rt sd (p @ py ''.'') [] = Inr U"
      and k: "startswith k (p @ py ''.'')" and v: "map_of U k = Some v"
  shows "\<exists>rest t i. k = (p @ py ''.'') @ str_nat i @ py ''.'' @ rest
            \<and> map_of sd ((p @ py ''.'') @ rest) = Some (Some t) \<and> i < leading t
            \<and> newline \<notin> set rest \<and> wf_tensor t \<and> numeric t \<and> v = row rt t i"
proof -
  have d: "distinct (map fst sd)" using ok by (simp add: stacked_ok_def)
  have "generated (p @ py ''.'') sd k"
  proof (rule ccontr)
    assume "\<not> generated (p @ py ''.'') sd k"
    from unstack_loop_untouched [OF loop d stacked_ok_rows_ok [OF ok] k this] v show False by simp
  qed
  then obtain rest t i where g: "k = (p @ py ''.'') @ str_nat i @ py ''.'' @ rest"
      "map_of sd ((p @ py ''.'') @ rest) = Some (Some t)" "i < leading t"
    unfolding generated_def by blast
  from stacked_okD [OF ok g(2)] have t: "wf_tensor t" "numeric t" "newline \<notin> set rest" by auto
  from unstack_loop_rows [OF loop d stacked_ok_rows_ok [OF ok] g(2,3)] v g(1)
  have "v = row rt t i" by simp
  with g t show ?thesis by blast
qed

lemma unstacked_exact_keys:
  assumes ok: "stacked_ok p sd" and loop: "unstack_loop rt sd (p @ py ''.'') [] = Inr U"
  shows "exact_keys rt (Some p) U"
  unfolding exact_keys_def
proof (intro ballI, clarify)
  fix k v g1 g2
  assume kv: "(k, v) \<in> set U" and m: "pattern_match rt (Some p) k = Some (g1, g2)"
  have dU: "distinct (map fst U)" using unstack_loop_distinct [OF loop] by simp
  have mv: "map_of U k = Some v" using in_set_map_of [OF dU kv] .
  from unstacked_generated [OF ok loop pattern_match_startswith [OF m] mv]
  obtain rest i where k: "k = (p @ py ''.'') @ str_nat i @ py ''.'' @ rest" and nl: "newline \<notin> set rest"
    by blast
  from pattern_match_generated [OF nl, of rt p i] m k have "g1 = str_nat i" "g2 = rest" by simp_all
  with k show "k = escaped (Some p) @ py ''.'' @ str_nat (int_of_digits rt g1) @ py ''.'' @ g2"
    by (simp add: escaped_def int_of_digits_str_nat)
qed

lemma hits_generated:
  "newline \<notin> set rest \<Longrightarrow> hits rt (Some p) ((p @ py ''.'') @ str_nat i @ py ''.'' @ rest) bk j \<longleftrightarrow> bk = rest \<and> j = i"
  using pattern_match_generated [of rest rt p i]
  by (auto simp: hits_def int_of_digits_str_nat)

text \<open>Every list the first loop collects from the unstacked dict is the rows of one array of the
  stacked dict.\<close>

lemma restacked_group:
  assumes ok: "stacked_ok p sd" and loop: "unstack_loop rt sd (p @ py ''.'') [] = Inr U"
      and sl: "stack_loop rt U (Some p) [] [] = Inr (vd, ttv)" and ts: "map_of ttv bk = Some ts"
  shows "\<exists>t. map_of sd ((p @ py ''.'') @ bk) = Some (Some t) \<and> np_stack rt ts = Inr t"
proof -
  have d: "distinct (map fst sd)" using ok by (simp add: stacked_ok_def)
  have dU: "distinct (map fst U)" using unstack_loop_distinct [OF loop] by simp
  from stack_loop_last_index [OF sl ts] obtain k v where
    ne: "ts \<noteq> []" and kv: "(k, v) \<in> set U" and h: "hits rt (Some p) k bk (length ts - 1)"
    by auto
  from h obtain g where m: "pattern_match rt (Some p) k = Some g"
    by (auto simp: hits_def split: option.splits)
  from unstacked_generated [OF ok loop pattern_match_startswith [OF m] in_set_map_of [OF dU kv]]
  obtain rest t i where k: "k = (p @ py ''.'') @ str_nat i @ py ''.'' @ rest"
    and src: "map_of sd ((p @ py ''.'') @ rest) = Some (Some t)" and i: "i < leading t"
    and nl: "newline \<notin> set rest" and wf: "wf_tensor t" and num: "numeric t"
    by blast
  from h k hits_generated [OF nl, of rt] have bk: "bk = rest" and last: "length ts - 1 = i" by auto
  from i have pos: "0 < leading t" by simp
  from leading_shape [OF pos] obtain s where sh: "shape t = leading t # s" by blast
  let ?n = "leading t"
  have slot: "slot ttv bk j = row rt t j" if "j < ?n" for j
  proof -
    from row_numeric [OF num sh] obtain r where r: "row rt t j = Some r" by blast
    have "map_of U ((p @ py ''.'') @ str_nat j @ py ''.'' @ rest) = Some (row rt t j)"
      by (rule unstack_loop_rows [OF loop d stacked_ok_rows_ok [OF ok] src that])
    then have "((p @ py ''.'') @ str_nat j @ py ''.'' @ rest, Some r) \<in> set U"
      using r by (auto dest: map_of_SomeD)
    from stack_loop_slot_written [OF sl this, of bk j] hits_generated [OF nl, of rt p j bk j] bk r
    show ?thesis by simp
  qed
  have len: "length ts = ?n"
  proof (rule antisym)
    show "length ts \<le> ?n" using last i ne by (cases ts) auto
    from slot [of "?n - 1"] pos row_numeric [OF num sh, of rt "?n - 1"]
    have "slot ttv bk (?n - 1) \<noteq> None" by simp
    then have "?n - 1 < length ts" using ts by (auto simp: slot_def split: if_splits)
    then show "?n \<le> length ts" by simp
  qed
  have "ts = map (row rt t) [0..<?n]"
  proof (rule nth_equalityI)
    show "length ts = length (map (row rt t) [0..<?n])" using len by simp
  next
    fix j assume "j < length ts"
    then have j: "j < ?n" using len by simp
    from slot [OF j] ts \<open>j < length ts\<close> have "ts ! j = row rt t j" by (simp add: slot_def)
    with j show "ts ! j = map (row rt t) [0..<?n] ! j" by simp
  qed
  with np_stack_rows [OF wf num sh pos] have "np_stack rt ts = Inr t" by simp
  with src bk show ?thesis by blast
qed

lemma unstack_state_dict_Some:
  "unstack_state_dict rt sd (Some p) = unstack_loop rt sd (p @ py ''.'') []"
  by (simp add: unstack_state_dict_def)

lemma unstack_then_stack:
  assumes ok: "stacked_ok p sd"
  shows "\<exists>u s. unstack_state_dict rt sd (Some p) = Inr u \<and> stack_state_dict rt u (Some p) = Inr s
            \<and> map_of s = map_of sd"
proof -
  have d: "distinct (map fst sd)" using ok by (simp add: stacked_ok_def)
  have rok: "rows_ok (p @ py ''.'') sd" using ok by (rule stacked_ok_rows_ok)
  from unstack_loop_success [OF rok] obtain U where loop: "unstack_loop rt sd (p @ py ''.'') [] = Inr U"
    by blast
  have dU: "distinct (map fst U)" using unstack_loop_distinct [OF loop] by simp
  have "\<exists>r. stack_loop rt U (Some p) [] [] = Inr r"
    by (rule stack_loop_exact_success [OF dU unstacked_exact_keys [OF ok loop], of "{}"])
       (simp_all add: slot_Nil)
  then obtain vd ttv where sl: "stack_loop rt U (Some p) [] [] = Inr (vd, ttv)" by auto
  have dt: "distinct (map fst ttv)" using stack_loop_distinct [OF sl] by simp
  have group: "\<exists>t. map_of sd ((p @ py ''.'') @ bk) = Some (Some t) \<and> np_stack rt ts = Inr t"
    if "(bk, ts) \<in> set ttv" for bk ts
    using restacked_group [OF ok loop sl in_set_map_of [OF dt that]] .
  have "\<exists>out. vectorize_loop rt ttv (Some p) vd = Inr out"
    by (rule vectorize_loop_success) (use group in blast)
  then obtain out where vl: "vectorize_loop rt ttv (Some p) vd = Inr out" by blast
  have vd: "map_of vd k = (if pattern_match rt (Some p) k = None then map_of U k else None)" for k
    using stack_loop_unmatched [OF sl dU, of k] by (auto simp: map_of_not_key)
  have "map_of out k = map_of sd k" for k
  proof (cases "startswith k (p @ py ''.'')")
    case False
    then have nm: "pattern_match rt (Some p) k = None"
      using pattern_match_startswith [of rt p k] by (cases "pattern_match rt (Some p) k") auto
    have "map_of out k = map_of vd k"
      by (rule vectorize_loop_other [OF vl]) (use False startswith_append [of "p @ py ''.''"] in auto)
    also have "\<dots> = map_of U k" using vd nm by simp
    also have "\<dots> = map_of sd k"
      using unstack_loop_passthrough [OF loop d False] by (auto simp: map_of_not_key)
    finally show ?thesis .
  next
    case True
    then obtain rest where k: "k = (p @ py ''.'') @ rest" using startswithD by blast
    show ?thesis
    proof (cases "map_of sd k")
      case (Some v)
      from stacked_okD [OF ok Some [unfolded k]] obtain t where
        t: "v = Some t" "wf_tensor t" "numeric t" "0 < leading t" "newline \<notin> set rest"
        by blast
      from leading_shape [OF t(4)] obtain s where sh: "shape t = leading t # s" by blast
      from row_numeric [OF t(3) sh] obtain r where r: "row rt t 0 = Some r" by blast
      have src: "map_of sd ((p @ py ''.'') @ rest) = Some (Some t)" using Some k t(1) by simp
      have "map_of U ((p @ py ''.'') @ str_nat 0 @ py ''.'' @ rest) = Some (row rt t 0)"
        by (rule unstack_loop_rows [OF loop d rok src t(4)])
      then have "((p @ py ''.'') @ str_nat 0 @ py ''.'' @ rest, Some r) \<in> set U"
        using r by (auto dest: map_of_SomeD)
      from stack_loop_slot_written [OF sl this, of rest 0] hits_generated [OF t(5), of rt p 0 rest 0]
      have "slot ttv rest 0 = Some r" by simp
      from slot_SomeD [OF this] obtain ts where ts: "(rest, ts) \<in> set ttv" by blast
      from group [OF ts] src have "np_stack rt ts = Inr t" by simp
      from vectorize_loop_stacked [OF vl dt ts this] Some k t(1) show ?thesis by simp
    next
      case None
      have other: "k \<noteq> p @ py ''.'' @ bk" if "bk \<in> fst ` set ttv" for bk
      proof
        assume e: "k = p @ py ''.'' @ bk"
        from that obtain ts where "(bk, ts) \<in> set ttv" by auto
        from group [OF this] e None show False by simp
      qed
      have "map_of out k = map_of vd k"
        by (rule vectorize_loop_other [OF vl]) (use other in blast)
      also have "\<dots> = None"
      proof (cases "map_of U k")
        case None
        then show ?thesis using vd by simp
      next
        case (Some v)
        from unstacked_generated [OF ok loop True Some] obtain rest' i where
          "k = (p @ py ''.'') @ str_nat i @ py ''.'' @ rest'" "newline \<notin> set rest'"
          by blast
        with pattern_match_generated [of rest' rt p i] have "pattern_match rt (Some p) k \<noteq> None" by simp
        then show ?thesis using vd [of k] by auto
      qed
      finally show ?thesis using None by simp
    qed
  qed
  then have "map_of out = map_of sd" by (rule ext)
  moreover have "stack_state_dict rt U (Some p) = Inr out"
    using sl vl by (simp add: stack_state_dict_def)
  ultimately show ?thesis using loop by (auto simp: unstack_state_dict_Some)
qed

subsection \<open>Stack, then unstack\<close>

lemma pattern_match_whole_key:
  assumes "pattern_match rt prefix k = Some (g1, g2)"
      and "newline \<notin> set (drop (length (escaped prefix @ py ''.'')) k)"
  shows "k = escaped prefix @ py ''.'' @ g1 @ py ''.'' @ g2"
proof -
  from pattern_match_SomeD(1) [OF assms(1)] obtain tail where
    k: "k = escaped prefix @ py ''.'' @ g1 @ py ''.'' @ g2 @ tail" and t: "tail = [] \<or> hd tail = newline"
    by blast
  have "tail = []"
  proof (rule ccontr)
    assume "tail \<noteq> []"
    with t have "newline \<in> set tail" by (metis hd_in_set)
    moreover have "drop (length (escaped prefix @ py ''.'')) k = g1 @ py ''.'' @ g2 @ tail"
      by (subst k) simp
    ultimately show False using assms(2) by simp
  qed
  with k show ?thesis by simp
qed

lemma unstacked_ok_entry:
  assumes ok: "unstacked_ok rt p sd" and kv: "(k, v) \<in> set sd" and sw: "startswith k (p @ py ''.'')"
  shows "\<exists>i bk t. k = (p @ py ''.'') @ str_nat i @ py ''.'' @ bk \<and> newline \<notin> set bk \<and> v = Some t
            \<and> wf_tensor t \<and> numeric t
            \<and> (\<forall>j<i. \<exists>t'. map_of sd ((p @ py ''.'') @ str_nat j @ py ''.'' @ bk) = Some (Some t')
                          \<and> shape t' = shape t \<and> dtype t' = dtype t)"
proof -
  from ok kv sw have c: "case pattern_match rt (Some p) k of
            None \<Rightarrow> False
          | Some (g1, bk) \<Rightarrow>
              canonical_numeral g1 \<and> newline \<notin> set (drop (length (p @ py ''.'')) k) \<and>
              (case v of
                 None \<Rightarrow> False
               | Some t \<Rightarrow>
                   wf_tensor t \<and> numeric t \<and>
                   list_all (\<lambda>j. case map_of sd ((p @ py ''.'') @ str_nat j @ py ''.'' @ bk) of
                                    Some (Some t') \<Rightarrow> shape t' = shape t \<and> dtype t' = dtype t
                                  | _ \<Rightarrow> False) [0..<int_of_digits rt g1])"
    unfolding unstacked_ok_def list_all_iff by blast
  then obtain g1 bk where m: "pattern_match rt (Some p) k = Some (g1, bk)"
    by (cases "pattern_match rt (Some p) k") auto
  with c obtain t where nz: "canonical_numeral g1" and nl: "newline \<notin> set (drop (length (p @ py ''.'')) k)"
    and v: "v = Some t" and t: "wf_tensor t" "numeric t"
    and dense: "list_all (\<lambda>j. case map_of sd ((p @ py ''.'') @ str_nat j @ py ''.'' @ bk) of
                                    Some (Some t') \<Rightarrow> shape t' = shape t \<and> dtype t' = dtype t
                                  | _ \<Rightarrow> False) [0..<int_of_digits rt g1]"
    by (cases v) auto
  from pattern_match_whole_key [OF m] nl have k: "k = p @ py ''.'' @ g1 @ py ''.'' @ bk"
    by (simp add: escaped_def)
  from pattern_match_SomeD [OF m] have g1: "g1 \<noteq> []" "list_all (is_digit rt) g1" and nlbk: "newline \<notin> set bk"
    by auto
  have canon: "str_nat (int_of_digits rt g1) = g1" using str_nat_int_of_digits [of g1 rt] g1(1) nz by (simp add: canonical_numeral_def)
  have "\<exists>t'. map_of sd ((p @ py ''.'') @ str_nat j @ py ''.'' @ bk) = Some (Some t') \<and> shape t' = shape t \<and> dtype t' = dtype t"
    if "j < int_of_digits rt g1" for j
  proof -
    from dense that have "case map_of sd ((p @ py ''.'') @ str_nat j @ py ''.'' @ bk) of
                                    Some (Some t') \<Rightarrow> shape t' = shape t \<and> dtype t' = dtype t
                                  | _ \<Rightarrow> False"
      unfolding list_all_iff by simp
    then show ?thesis by (auto split: option.splits)
  qed
  with k canon nlbk v t show ?thesis
    by (intro exI [of _ "int_of_digits rt g1"] exI [of _ bk] exI [of _ t]) simp
qed

lemma unstacked_exact:
  assumes ok: "unstacked_ok rt p sd"
  shows "exact_keys rt (Some p) sd"
  unfolding exact_keys_def
proof (intro ballI, clarify)
  fix k v g1 g2
  assume kv: "(k, v) \<in> set sd" and m: "pattern_match rt (Some p) k = Some (g1, g2)"
  from unstacked_ok_entry [OF ok kv pattern_match_startswith [OF m]]
  obtain i bk where k: "k = (p @ py ''.'') @ str_nat i @ py ''.'' @ bk" and nl: "newline \<notin> set bk"
    by blast
  from pattern_match_generated [OF nl, of rt p i] m k have "g1 = str_nat i" "g2 = bk" by simp_all
  with k show "k = escaped (Some p) @ py ''.'' @ str_nat (int_of_digits rt g1) @ py ''.'' @ g2"
    by (simp add: escaped_def int_of_digits_str_nat)
qed

text \<open>Every list the first loop collects from an unstacked dict that is in order holds the
  arrays of the indices from 0 to its length, all of one shape.\<close>

lemma stacked_group:
  assumes ok: "unstacked_ok rt p sd" and sl: "stack_loop rt sd (Some p) [] [] = Inr (vd, ttv)"
      and ts: "map_of ttv bk = Some ts"
  shows "\<exists>tens s d. ts = map Some tens \<and> tens \<noteq> [] \<and> newline \<notin> set bk
            \<and> (\<forall>t \<in> set tens. shape t = s \<and> dtype t = d \<and> wf_tensor t \<and> numeric t)
            \<and> (\<forall>j<length tens. map_of sd ((p @ py ''.'') @ str_nat j @ py ''.'' @ bk) = Some (Some (tens ! j)))"
proof -
  have d: "distinct (map fst sd)" using ok by (simp add: unstacked_ok_def)
  from stack_loop_last_index [OF sl ts] obtain k v where
    ne: "ts \<noteq> []" and kv: "(k, v) \<in> set sd" and h: "hits rt (Some p) k bk (length ts - 1)"
    by auto
  from h obtain g where m: "pattern_match rt (Some p) k = Some g"
    by (auto simp: hits_def split: option.splits)
  from unstacked_ok_entry [OF ok kv pattern_match_startswith [OF m]]
  obtain i bk' t where k: "k = (p @ py ''.'') @ str_nat i @ py ''.'' @ bk'" and nl: "newline \<notin> set bk'"
    and v: "v = Some t" and t: "wf_tensor t" "numeric t"
    and dense: "\<forall>j<i. \<exists>t'. map_of sd ((p @ py ''.'') @ str_nat j @ py ''.'' @ bk') = Some (Some t')
                          \<and> shape t' = shape t \<and> dtype t' = dtype t"
    by blast
  from h k hits_generated [OF nl, of rt] have bk: "bk' = bk" and last: "length ts - 1 = i" by auto
  have len: "length ts = Suc i" using last ne by (cases ts) auto
  have top: "map_of sd ((p @ py ''.'') @ str_nat i @ py ''.'' @ bk) = Some (Some t)"
    using in_set_map_of [OF d kv] k v bk by simp
  have present: "\<exists>t'. map_of sd ((p @ py ''.'') @ str_nat j @ py ''.'' @ bk) = Some (Some t')
                    \<and> shape t' = shape t \<and> dtype t' = dtype t" if "j < Suc i" for j
  proof (cases "j = i")
    case True
    with top show ?thesis by simp
  next
    case False
    with that have "j < i" by simp
    with dense bk show ?thesis by simp
  qed
  define tens where "tens = map (\<lambda>j. the (the (map_of sd ((p @ py ''.'') @ str_nat j @ py ''.'' @ bk)))) [0..<Suc i]"
  have tens_nth: "map_of sd ((p @ py ''.'') @ str_nat j @ py ''.'' @ bk) = Some (Some (tens ! j))
                  \<and> shape (tens ! j) = shape t \<and> dtype (tens ! j) = dtype t" if "j < Suc i" for j
  proof -
    from present [OF that] obtain t' where
      "map_of sd ((p @ py ''.'') @ str_nat j @ py ''.'' @ bk) = Some (Some t')" "shape t' = shape t \<and> dtype t' = dtype t"
      by blast
    moreover have "tens ! j = the (the (map_of sd ((p @ py ''.'') @ str_nat j @ py ''.'' @ bk)))"
      unfolding tens_def using that by (simp only: nth_map_upt add_0 length_upt diff_zero)
    ultimately show ?thesis by simp
  qed
  have lt: "length tens = Suc i" by (simp add: tens_def)
  have each: "shape x = shape t \<and> dtype x = dtype t \<and> wf_tensor x \<and> numeric x" if "x \<in> set tens" for x
  proof -
    from that lt obtain j where j: "j < Suc i" "x = tens ! j" by (metis in_set_conv_nth)
    from tens_nth [OF j(1)] have inset: "((p @ py ''.'') @ str_nat j @ py ''.'' @ bk, Some x) \<in> set sd"
      and sh: "shape x = shape t \<and> dtype x = dtype t"
      using j(2) by (auto dest: map_of_SomeD)
    from unstacked_ok_entry [OF ok inset startswith_append] sh show ?thesis by auto
  qed
  have eq: "ts = map Some tens"
  proof (rule nth_equalityI)
    show "length ts = length (map Some tens)" using len lt by simp
  next
    fix j assume "j < length ts"
    then have j: "j < Suc i" using len by simp
    from tens_nth [OF j] have "((p @ py ''.'') @ str_nat j @ py ''.'' @ bk, Some (tens ! j)) \<in> set sd"
      by (auto dest: map_of_SomeD)
    from stack_loop_slot_written [OF sl this, of bk j] hits_generated [OF nl, of rt p j bk j] bk
    have "slot ttv bk j = Some (tens ! j)" by simp
    with ts \<open>j < length ts\<close> have "ts ! j = Some (tens ! j)" by (simp add: slot_def)
    then show "ts ! j = map Some tens ! j" using j lt by simp
  qed
  have ne': "tens \<noteq> []" using lt by auto
  have nl': "newline \<notin> set bk" using nl bk by simp
  have all: "\<forall>x \<in> set tens. shape x = shape t \<and> dtype x = dtype t \<and> wf_tensor x \<and> numeric x"
    using each by blast
  have nth: "\<forall>j<length tens. map_of sd ((p @ py ''.'') @ str_nat j @ py ''.'' @ bk) = Some (Some (tens ! j))"
    using tens_nth lt by simp
  from eq ne' nl' all nth show ?thesis
    by (intro exI [of _ tens] exI [of _ "shape t"] exI [of _ "dtype t"]) (simp only: simp_thms)
qed

lemma stack_loop_vd_distinct:
  assumes "stack_loop rt items prefix vd ttv = Inr (vd', ttv')" and "distinct (map fst vd)"
  shows "distinct (map fst vd')"
  using assms
proof (induction items arbitrary: vd ttv)
  case Nil
  then show ?case by simp
next
  case (Cons kv items)
  obtain k0 v0 where kv: "kv = (k0, v0)" by (cases kv)
  from Cons.prems(1) [unfolded kv] show ?case
    by (cases rule: stack_loop_step) (use Cons.IH Cons.prems(2) in \<open>auto simp: distinct_update\<close>)
qed

lemma vectorize_loop_distinct:
  assumes "vectorize_loop rt groups (Some p) vd = Inr out" and "distinct (map fst vd)"
  shows "distinct (map fst out)"
  using assms
proof (induction groups arbitrary: vd)
  case Nil
  then show ?case by simp
next
  case (Cons g groups)
  obtain bk ts where g: "g = (bk, ts)" by (cases g)
  from Cons.prems(1) [unfolded g] show ?case
    by (cases rule: vectorize_loop_step) (use Cons.IH Cons.prems(2) in \<open>auto simp: distinct_update\<close>)
qed

lemma leading_Tensor: "leading (Tensor d (n # s) es) = n"
  by (simp add: leading_def)

lemma stack_then_unstack:
  assumes ok: "unstacked_ok rt p sd"
  shows "\<exists>s u. stack_state_dict rt sd (Some p) = Inr s \<and> unstack_state_dict rt s (Some p) = Inr u
            \<and> map_of u = map_of sd"
proof -
  have d: "distinct (map fst sd)" using ok by (simp add: unstacked_ok_def)
  have "\<exists>r. stack_loop rt sd (Some p) [] [] = Inr r"
    by (rule stack_loop_exact_success [OF d unstacked_exact [OF ok], of "{}"]) (simp_all add: slot_Nil)
  then obtain vd ttv where sl: "stack_loop rt sd (Some p) [] [] = Inr (vd, ttv)" by auto
  have dt: "distinct (map fst ttv)" using stack_loop_distinct [OF sl] by simp
  have dvd: "distinct (map fst vd)" using stack_loop_vd_distinct [OF sl] by simp
  \<comment> \<open>the groups\<close>
  have group: "\<exists>tens s d. ts = map Some tens \<and> tens \<noteq> [] \<and> newline \<notin> set bk
            \<and> (\<forall>t \<in> set tens. shape t = s \<and> dtype t = d \<and> wf_tensor t \<and> numeric t)
            \<and> (\<forall>j<length tens. map_of sd ((p @ py ''.'') @ str_nat j @ py ''.'' @ bk) = Some (Some (tens ! j)))
            \<and> np_stack rt ts = Inr (Tensor d (length tens # s) (concat (map entries tens)))"
    if "(bk, ts) \<in> set ttv" for bk ts
  proof -
    from stacked_group [OF ok sl in_set_map_of [OF dt that]] obtain tens s d where
      g: "ts = map Some tens" "tens \<noteq> []" "newline \<notin> set bk"
         "\<forall>t \<in> set tens. shape t = s \<and> dtype t = d \<and> wf_tensor t \<and> numeric t"
         "\<forall>j<length tens. map_of sd ((p @ py ''.'') @ str_nat j @ py ''.'' @ bk) = Some (Some (tens ! j))"
      by blast
    have "np_stack rt ts = Inr (Tensor d (length tens # s) (concat (map entries tens)))"
      unfolding g(1) by (rule np_stack_same_shape [OF g(2)]) (use g(4) in blast)
    with g show ?thesis by (intro exI [of _ tens] exI [of _ s] exI [of _ d]) (simp only: simp_thms)
  qed
  have "\<exists>out. vectorize_loop rt ttv (Some p) vd = Inr out"
    by (rule vectorize_loop_success) (use group in blast)
  then obtain out where vl: "vectorize_loop rt ttv (Some p) vd = Inr out" by blast
  have dout: "distinct (map fst out)" using vectorize_loop_distinct [OF vl dvd] .
  have st: "stack_state_dict rt sd (Some p) = Inr out" using sl vl by (simp add: stack_state_dict_def)
  have vd: "map_of vd k = (if pattern_match rt (Some p) k = None then map_of sd k else None)" for k
    using stack_loop_unmatched [OF sl d, of k] by (auto simp: map_of_not_key)
  \<comment> \<open>keys outside the prefix\<close>
  have outside: "map_of out k = map_of sd k" if "\<not> startswith k (p @ py ''.'')" for k
  proof -
    from that have nm: "pattern_match rt (Some p) k = None"
      using pattern_match_startswith [of rt p k] by (cases "pattern_match rt (Some p) k") auto
    have "map_of out k = map_of vd k"
      by (rule vectorize_loop_other [OF vl]) (use that startswith_append [of "p @ py ''.''"] in auto)
    with vd nm show ?thesis by simp
  qed
  \<comment> \<open>keys under the prefix\<close>
  have inside: "\<exists>bk ts. k = (p @ py ''.'') @ bk \<and> (bk, ts) \<in> set ttv"
    if sw: "startswith k (p @ py ''.'')" and v: "map_of out k = Some v" for k v
  proof (rule ccontr)
    assume no: "\<not> (\<exists>bk ts. k = (p @ py ''.'') @ bk \<and> (bk, ts) \<in> set ttv)"
    have "map_of out k = map_of vd k"
      by (rule vectorize_loop_other [OF vl]) (use no in auto)
    with v vd [of k] have nm: "pattern_match rt (Some p) k = None" and "map_of sd k = Some v"
      by (auto split: if_splits)
    then have "(k, v) \<in> set sd" by (auto dest: map_of_SomeD)
    from unstacked_ok_entry [OF ok this sw] obtain i bk where
      "k = (p @ py ''.'') @ str_nat i @ py ''.'' @ bk" "newline \<notin> set bk"
      by blast
    with pattern_match_generated [of bk rt p i] nm show False by simp
  qed
  have stacked: "map_of out ((p @ py ''.'') @ bk) = Some (Some T)"
    if "(bk, ts) \<in> set ttv" and "np_stack rt ts = Inr T" for bk ts T
    using vectorize_loop_stacked [OF vl dt that] by simp
  have rok: "rows_ok (p @ py ''.'') out"
    unfolding rows_ok_def
  proof (intro ballI, clarify)
    fix k v assume kv: "(k, v) \<in> set out" and sw: "startswith k (p @ py ''.'')"
    from inside [OF sw in_set_map_of [OF dout kv]] obtain bk ts where
      k: "k = (p @ py ''.'') @ bk" and g: "(bk, ts) \<in> set ttv"
      by blast
    from group [OF g] obtain tens s d where
      "np_stack rt ts = Inr (Tensor d (length tens # s) (concat (map entries tens)))"
      by blast
    from stacked [OF g this] in_set_map_of [OF dout kv] k
    show "\<exists>t. v = Some t \<and> shape t \<noteq> []" by auto
  qed
  from unstack_loop_success [OF rok] obtain U where loop: "unstack_loop rt out (p @ py ''.'') [] = Inr U"
    by blast
  have "map_of U k = map_of sd k" for k
  proof (cases "startswith k (p @ py ''.'')")
    case False
    from unstack_loop_passthrough [OF loop dout False] outside [OF False]
    show ?thesis by (auto simp: map_of_not_key)
  next
    case True
    show ?thesis
    proof (cases "map_of sd k")
      case (Some v)
      then have kv: "(k, v) \<in> set sd" by (rule map_of_SomeD)
      from unstacked_ok_entry [OF ok kv True] obtain i bk t where
        k: "k = (p @ py ''.'') @ str_nat i @ py ''.'' @ bk" and nl: "newline \<notin> set bk" and v: "v = Some t"
        by blast
      from stack_loop_slot_written [OF sl kv [unfolded v], of bk i] hits_generated [OF nl, of rt p i bk i] k
      have "slot ttv bk i = Some t" by simp
      from slot_SomeD [OF this] obtain ts where
        g: "(bk, ts) \<in> set ttv" and i: "i < length ts" and ti: "ts ! i = Some t"
        by blast
      from group [OF g] obtain tens s d where
        ts: "ts = map Some tens"
        and each: "\<forall>t \<in> set tens. shape t = s \<and> dtype t = d \<and> wf_tensor t \<and> numeric t"
        and st: "np_stack rt ts = Inr (Tensor d (length tens # s) (concat (map entries tens)))"
        by blast
      let ?T = "Tensor d (length tens # s) (concat (map entries tens))"
      have i': "i < length tens" using i ts by simp
      have "map_of U ((p @ py ''.'') @ str_nat i @ py ''.'' @ bk) = Some (row rt ?T i)"
        by (rule unstack_loop_rows [OF loop dout rok stacked [OF g st]])
           (use i' in \<open>simp add: leading_Tensor\<close>)
      also have "row rt ?T i = Some (tens ! i)" by (rule row_stacked [OF each i'])
      also have "tens ! i = t" using ti ts i' by simp
      finally show ?thesis using Some k v by simp
    next
      case None
      have "map_of U k = None"
      proof (rule ccontr)
        assume nn: "map_of U k \<noteq> None"
        have "generated (p @ py ''.'') out k"
        proof (rule ccontr)
          assume "\<not> generated (p @ py ''.'') out k"
          from unstack_loop_untouched [OF loop dout rok True this] nn show False by simp
        qed
        then obtain rest T i where k: "k = (p @ py ''.'') @ str_nat i @ py ''.'' @ rest"
          and src: "map_of out ((p @ py ''.'') @ rest) = Some (Some T)" and i: "i < leading T"
          unfolding generated_def by blast
        from inside [OF startswith_append src] obtain bk ts where
          "(p @ py ''.'') @ rest = (p @ py ''.'') @ bk" and g: "(bk, ts) \<in> set ttv"
          by blast
        then have bk: "bk = rest" by simp
        from group [OF g] obtain tens s d where
          nth: "\<forall>j<length tens. map_of sd ((p @ py ''.'') @ str_nat j @ py ''.'' @ bk) = Some (Some (tens ! j))"
          and st: "np_stack rt ts = Inr (Tensor d (length tens # s) (concat (map entries tens)))"
          by blast
        from stacked [OF g st] src bk have "T = Tensor d (length tens # s) (concat (map entries tens))"
          by simp
        with i have "i < length tens" by (simp add: leading_Tensor)
        with nth k bk have "map_of sd k \<noteq> None" by simp
        with None show False by simp
      qed
      with None show ?thesis by simp
    qed
  qed
  then have "map_of U = map_of sd" by (rule ext)
  with st loop show ?thesis by (auto simp: unstack_state_dict_Some)
qed

subsection \<open>The two round trips\<close>

lemma stack_passthrough:
  assumes "stack_state_dict rt sd (Some p) = Inr s" and "distinct (map fst sd)"
      and "\<not> startswith k (p @ py ''.'')"
  shows "map_of s k = map_of sd k"
proof -
  from assms(1) obtain vd ttv where sl: "stack_loop rt sd (Some p) [] [] = Inr (vd, ttv)"
    and vl: "vectorize_loop rt ttv (Some p) vd = Inr s"
    by (auto simp: stack_state_dict_def split: sum.splits)
  from assms(3) have nm: "pattern_match rt (Some p) k = None"
    using pattern_match_startswith [of rt p k] by (cases "pattern_match rt (Some p) k") auto
  have "map_of s k = map_of vd k"
    by (rule vectorize_loop_other [OF vl]) (use assms(3) startswith_append [of "p @ py ''.''"] in auto)
  with stack_loop_unmatched [OF sl assms(2), of k] nm show ?thesis
    by (auto simp: map_of_not_key)
qed

lemma unstack_passthrough:
  assumes "unstack_state_dict rt sd (Some p) = Inr u" and "distinct (map fst sd)"
      and "\<not> startswith k (p @ py ''.'')"
  shows "map_of u k = map_of sd k"
  using unstack_loop_passthrough [OF assms(1) [unfolded unstack_state_dict_Some] assms(2,3)]
  by (auto simp: map_of_not_key)

text \<open>
  Claim C4, with the dicts it holds for named. For a prefix \<open>p\<close>: unstacking a stacked
  dict that is in order and stacking the result succeed and give back the same keys
  with the same values; stacking an unstacked dict that is in order and unstacking the
  result succeed and give back the same keys with the same values; and a key that does
  not start with \<open>p\<close> and a dot keeps its value through either function, whenever the
  function returns.
\<close>

theorem stack_unstack_inverse:
  "(stacked_ok p sd \<longrightarrow>
      (\<exists>u s. unstack_state_dict rt sd (Some p) = Inr u \<and> stack_state_dict rt u (Some p) = Inr s
          \<and> map_of s = map_of sd))
   \<and> (unstacked_ok rt p sd \<longrightarrow>
      (\<exists>s u. stack_state_dict rt sd (Some p) = Inr s \<and> unstack_state_dict rt s (Some p) = Inr u
          \<and> map_of u = map_of sd))
   \<and> (distinct (map fst sd) \<and> \<not> startswith k (p @ py ''.'') \<and> unstack_state_dict rt sd (Some p) = Inr u'
        \<longrightarrow> map_of u' k = map_of sd k)
   \<and> (distinct (map fst sd) \<and> \<not> startswith k (p @ py ''.'') \<and> stack_state_dict rt sd (Some p) = Inr s'
        \<longrightarrow> map_of s' k = map_of sd k)"
  using unstack_then_stack [of p sd rt] stack_then_unstack [of rt p sd]
        unstack_passthrough [of rt sd p u' k] stack_passthrough [of rt sd p s' k]
  by blast

theorem stack_unstack_inverse_witness:
  "stacked_ok (py ''blocks'')
      [(py ''blocks.w'', Some (Tensor (Numeric ''int64'') [2, 2] [Some (1::int), Some 2, Some 3, Some 4])),
       (py ''ln.b'', Some (Tensor (Numeric ''int64'') [1] [Some 5]))]
   \<and> (\<exists>u s. unstack_state_dict example_runtime
          [(py ''blocks.w'', Some (Tensor (Numeric ''int64'') [2, 2] [Some 1, Some 2, Some 3, Some 4])),
           (py ''ln.b'', Some (Tensor (Numeric ''int64'') [1] [Some 5]))] (Some (py ''blocks'')) = Inr u
        \<and> stack_state_dict example_runtime u (Some (py ''blocks'')) = Inr s
        \<and> map_of s = map_of
          [(py ''blocks.w'', Some (Tensor (Numeric ''int64'') [2, 2] [Some 1, Some 2, Some 3, Some 4])),
           (py ''ln.b'', Some (Tensor (Numeric ''int64'') [1] [Some 5]))])
   \<and> unstacked_ok example_runtime (py ''blocks'')
      [(py ''blocks.0.w'', Some (Tensor (Numeric ''int64'') [2] [Some 1, Some 2])),
       (py ''ln.b'', Some (Tensor (Numeric ''int64'') [1] [Some 5])),
       (py ''blocks.1.w'', Some (Tensor (Numeric ''int64'') [2] [Some 3, Some 4]))]
   \<and> (\<exists>s u. stack_state_dict example_runtime
          [(py ''blocks.0.w'', Some (Tensor (Numeric ''int64'') [2] [Some 1, Some 2])),
           (py ''ln.b'', Some (Tensor (Numeric ''int64'') [1] [Some 5])),
           (py ''blocks.1.w'', Some (Tensor (Numeric ''int64'') [2] [Some 3, Some 4]))] (Some (py ''blocks'')) = Inr s
        \<and> unstack_state_dict example_runtime s (Some (py ''blocks'')) = Inr u
        \<and> map_of u = map_of
          [(py ''blocks.0.w'', Some (Tensor (Numeric ''int64'') [2] [Some 1, Some 2])),
           (py ''ln.b'', Some (Tensor (Numeric ''int64'') [1] [Some 5])),
           (py ''blocks.1.w'', Some (Tensor (Numeric ''int64'') [2] [Some 3, Some 4]))])
   \<and> map_of [(py ''blocks.0.w'', Some (Tensor (Numeric ''int64'') [2] [Some (1::int), Some 2])),
              (py ''blocks.1.w'', Some (Tensor (Numeric ''int64'') [2] [Some 3, Some 4])),
              (py ''ln.b'', Some (Tensor (Numeric ''int64'') [1] [Some 5]))] (py ''ln.b'')
       = map_of [(py ''blocks.w'', Some (Tensor (Numeric ''int64'') [2, 2] [Some (1::int), Some 2, Some 3, Some 4])),
                 (py ''ln.b'', Some (Tensor (Numeric ''int64'') [1] [Some 5]))] (py ''ln.b'')
   \<and> map_of [(py ''ln.b'', Some (Tensor (Numeric ''int64'') [1] [Some (5::int)])),
              (py ''blocks.w'', Some (Tensor (Numeric ''int64'') [2, 2] [Some 1, Some 2, Some 3, Some 4]))] (py ''ln.b'')
       = map_of [(py ''blocks.0.w'', Some (Tensor (Numeric ''int64'') [2] [Some (1::int), Some 2])),
                 (py ''ln.b'', Some (Tensor (Numeric ''int64'') [1] [Some 5])),
                 (py ''blocks.1.w'', Some (Tensor (Numeric ''int64'') [2] [Some 3, Some 4]))] (py ''ln.b'')"
proof -
  let ?A = "[(py ''blocks.w'', Some (Tensor (Numeric ''int64'') [2, 2] [Some (1::int), Some 2, Some 3, Some 4])),
             (py ''ln.b'', Some (Tensor (Numeric ''int64'') [1] [Some 5]))]"
  let ?B = "[(py ''blocks.0.w'', Some (Tensor (Numeric ''int64'') [2] [Some (1::int), Some 2])),
             (py ''ln.b'', Some (Tensor (Numeric ''int64'') [1] [Some 5])),
             (py ''blocks.1.w'', Some (Tensor (Numeric ''int64'') [2] [Some 3, Some 4]))]"
  let ?UA = "[(py ''blocks.0.w'', Some (Tensor (Numeric ''int64'') [2] [Some (1::int), Some 2])),
              (py ''blocks.1.w'', Some (Tensor (Numeric ''int64'') [2] [Some 3, Some 4])),
              (py ''ln.b'', Some (Tensor (Numeric ''int64'') [1] [Some 5]))]"
  let ?SB = "[(py ''ln.b'', Some (Tensor (Numeric ''int64'') [1] [Some (5::int)])),
              (py ''blocks.w'', Some (Tensor (Numeric ''int64'') [2, 2] [Some 1, Some 2, Some 3, Some 4]))]"
  have a: "stacked_ok (py ''blocks'') ?A"
    by (simp add: stacked_ok_def startswith_def newline_def wf_tensor_def numeric_def leading_def py_def)
  have b: "unstacked_ok example_runtime (py ''blocks'') ?B"
    by (simp add: unstacked_ok_def startswith_def newline_def wf_tensor_def numeric_def
          pattern_match_def escaped_def is_digit_def digit_value_def canonical_numeral_def ascii_digit_def
          no_leading_zero_def int_of_digits_def str_nat.simps digit_char_def py_def)
  have ua: "unstack_state_dict example_runtime ?A (Some (py ''blocks'')) = Inr ?UA"
    by (simp add: unstack_state_dict_def startswith_def iter_rows_def row_def as_object_def
          str_nat.simps digit_char_def upt_rec py_def)
  have sb: "stack_state_dict example_runtime ?B (Some (py ''blocks'')) = Inr ?SB"
    by (simp add: stack_state_dict_def pattern_match_def startswith_def escaped_def is_digit_def
          digit_value_def int_of_digits_def newline_def np_stack_def py_def)
  have da: "distinct (map fst ?A) \<and> \<not> startswith (py ''ln.b'') (py ''blocks'' @ py ''.'')"
    by (simp add: startswith_def py_def)
  have db: "distinct (map fst ?B) \<and> \<not> startswith (py ''ln.b'') (py ''blocks'' @ py ''.'')"
    by (simp add: startswith_def py_def)
  note inst_a = stack_unstack_inverse [where rt = example_runtime and p = "py ''blocks''" and sd = "?A"
      and k = "py ''ln.b''" and u' = "?UA" and s' = "?SB"]
  note inst_b = stack_unstack_inverse [where rt = example_runtime and p = "py ''blocks''" and sd = "?B"
      and k = "py ''ln.b''" and u' = "?UA" and s' = "?SB"]
  from inst_a a ua da
  have 1: "(\<exists>u s. unstack_state_dict example_runtime ?A (Some (py ''blocks'')) = Inr u
              \<and> stack_state_dict example_runtime u (Some (py ''blocks'')) = Inr s
              \<and> map_of s = map_of ?A)"
    and 3: "map_of ?UA (py ''ln.b'') = map_of ?A (py ''ln.b'')"
    by blast+
  from inst_b b sb db
  have 2: "(\<exists>s u. stack_state_dict example_runtime ?B (Some (py ''blocks'')) = Inr s
              \<and> unstack_state_dict example_runtime s (Some (py ''blocks'')) = Inr u
              \<and> map_of u = map_of ?B)"
    and 4: "map_of ?SB (py ''ln.b'') = map_of ?B (py ''ln.b'')"
    by blast+
  from a b 1 2 3 4 show ?thesis by (intro conjI)
qed

lemma bit_length_numeral:
  "bit_length 0 = 0"
  "bit_length (Suc 0) = 1"
  "bit_length (numeral (Num.Bit0 k)) = Suc (bit_length (numeral k))"
  "bit_length (numeral (Num.Bit1 k)) = Suc (bit_length (numeral k))"
  "bit_length (numeral Num.One) = 1"
  by (subst bit_length.simps, simp)+

lemma round_float64_max_uint64: "round_float64 18446744073709551615 = 18446744073709551616"
  by (simp add: round_float64_def bit_length_numeral Let_def)

lemma round_float64_minus_one: "round_float64 (- 1) = - 1"
  by (simp add: round_float64_def bit_length_numeral Let_def)

text \<open>
  The claim as worded, for every dict with a dense and duplicate-free index run, fails
  in three ways. Stacking needs arrays of one shape: with the dense run 0, 1 and arrays
  of shapes (2) and (3) it fails with the shape error of \<^verbatim>\<open>numpy.stack\<close>.
  Stacking keeps the values only of arrays of one dtype: a \<^verbatim>\<open>uint64\<close> array
  next to an \<^verbatim>\<open>int64\<close> array gives a \<^verbatim>\<open>float64\<close> array, in which
  \<open>2\<^sup>6\<^sup>4 - 1\<close> has become \<open>2\<^sup>6\<^sup>4\<close>, and unstacking gives that back. And
  a stacked array with leading size 0 has no rows, so unstacking drops its key and
  stacking cannot bring it back.
\<close>

theorem stack_unstack_inverse_counterexample:
  "stack_state_dict example_runtime
      [(py ''blocks.0.w'', Some (Tensor (Numeric ''int64'') [2] [Some 1, Some 2])),
       (py ''blocks.1.w'', Some (Tensor (Numeric ''int64'') [3] [Some 3, Some 4, Some 5]))] (Some (py ''blocks''))
     = Inl ValueError
   \<and> stack_state_dict example_runtime
      [(py ''blocks.0.w'', Some (Tensor (Numeric ''uint64'') [1] [Some 18446744073709551615])),
       (py ''blocks.1.w'', Some (Tensor (Numeric ''int64'') [1] [Some (- 1)]))] (Some (py ''blocks''))
     = Inr [(py ''blocks.w'', Some (Tensor (Numeric ''float64'') [2, 1] [Some 18446744073709551616, Some (- 1)]))]
   \<and> unstack_state_dict example_runtime
      [(py ''blocks.w'', Some (Tensor (Numeric ''float64'') [2, 1] [Some 18446744073709551616, Some (- 1)]))]
      (Some (py ''blocks''))
     = Inr [(py ''blocks.0.w'', Some (Tensor (Numeric ''float64'') [1] [Some 18446744073709551616])),
            (py ''blocks.1.w'', Some (Tensor (Numeric ''float64'') [1] [Some (- 1)]))]
   \<and> map_of [(py ''blocks.0.w'', Some (Tensor (Numeric ''float64'') [1] [Some (18446744073709551616::int)])),
              (py ''blocks.1.w'', Some (Tensor (Numeric ''float64'') [1] [Some (- 1)]))] (py ''blocks.0.w'')
       \<noteq> map_of [(py ''blocks.0.w'', Some (Tensor (Numeric ''uint64'') [1] [Some 18446744073709551615])),
                 (py ''blocks.1.w'', Some (Tensor (Numeric ''int64'') [1] [Some (- 1)]))] (py ''blocks.0.w'')
   \<and> unstack_state_dict example_runtime [(py ''blocks.w'', Some (Tensor (Numeric ''int64'') [0, 2] []))] (Some (py ''blocks''))
       = Inr []
   \<and> stack_state_dict example_runtime [] (Some (py ''blocks'')) = Inr []
   \<and> map_of ([] :: int tensor state_dict) (py ''blocks.w'')
       \<noteq> map_of [(py ''blocks.w'', Some (Tensor (Numeric ''int64'') [0, 2] []))] (py ''blocks.w'')"
  by (simp add: stack_state_dict_def pattern_match_def startswith_def escaped_def is_digit_def
        digit_value_def int_of_digits_def newline_def np_stack_def unstack_state_dict_def iter_rows_def
        row_def as_object_def str_nat.simps digit_char_def upt_rec py_def example_runtime_def
        to_float64_def round_float64_max_uint64 round_float64_minus_one Let_def)


end
